theory Spec2Isabelle
  imports Complex_Main "HOL-Library.AList"
begin

section \<open>Python values, exceptions and durations\<close>

text \<open>
  The exceptions that the modelled code can meet. \<open>ConnectionError\<close> and
  \<open>ResponseError\<close> are the two subclasses of \<open>redis.RedisError\<close> that the model
  of the backend produces; a clause \<open>except redis.RedisError\<close> catches both.
\<close>

datatype py_error =
    KeyError
  | IndexError
  | TypeError
  | OverflowError
  | JSONDecodeError
  | ConnectionError
  | ResponseError

fun is_RedisError :: "py_error \<Rightarrow> bool" where
  "is_RedisError ConnectionError = True"
| "is_RedisError ResponseError = True"
| "is_RedisError _ = False"

text \<open>
  The payloads handed to the cache (\<open>data: Any\<close>): \<open>None\<close>, booleans, integers,
  strings, lists, tuples, dictionaries with string keys, and \<open>PObject\<close> for any other
  object (a \<open>datetime\<close>, a \<open>set\<close>, ...), identified by a number. Floats are left out.
\<close>

datatype pyval =
    PNone
  | PBool bool
  | PInt int
  | PStr string
  | PList "pyval list"
  | PTuple "pyval list"
  | PDict "(string \<times> pyval) list"
  | PObject nat

text \<open>
  \<open>ttl: Union[int, timedelta]\<close>. A \<open>timedelta\<close> is held as its whole number of
  microseconds.
\<close>

datatype ttl = Seconds int | Timedelta int

text \<open>
  \<open>ttl.total_seconds()\<close> is the true division of the microseconds by \<open>10**6\<close>: the
  quotient of two Python ints, rounded to the nearest double (53 significant bits, ties
  to the even one). \<open>int(...)\<close> then truncates the double towards zero. The three
  functions below compute this on integers, for a dividend \<open>a > 0\<close> and a divisor
  \<open>b > 0\<close>: \<open>binade a b\<close> is the exponent \<open>e\<close> with \<open>2^e \<le> a / b < 2^(e + 1)\<close>, a
  double in that binade is a multiple of \<open>2^(e - 52)\<close>, and \<open>rne_div n d\<close> is \<open>n / d\<close>
  rounded to the nearest integer, ties to the even one. A \<open>timedelta\<close> holds less than
  \<open>10^9\<close> days, far inside the range of a double, so the division does not overflow.
\<close>

fun bit_length :: "nat \<Rightarrow> nat" where
  "bit_length n = (if n = 0 then 0 else Suc (bit_length (n div 2)))"

declare bit_length.simps [simp del]

definition rne_div :: "int \<Rightarrow> int \<Rightarrow> int" where
  "rne_div n d =
     (let q = n div d; r = n mod d
      in if 2 * r < d \<or> (2 * r = d \<and> even q) then q else q + 1)"

definition binade :: "int \<Rightarrow> int \<Rightarrow> int" where
  "binade a b =
     (let e0 = int (bit_length (nat a)) - int (bit_length (nat b))
      in if (if 0 \<le> e0 then b * 2 ^ nat e0 \<le> a else b \<le> a * 2 ^ nat (- e0))
         then e0 else e0 - 1)"

definition float_div_trunc :: "int \<Rightarrow> int \<Rightarrow> int" where
  "float_div_trunc a b =
     (if a = 0 then 0
      else
        (let e = binade a b
         in if 52 \<le> e then rne_div a (b * 2 ^ nat (e - 52)) * 2 ^ nat (e - 52)
            else rne_div (a * 2 ^ nat (52 - e)) b div 2 ^ nat (52 - e)))"

text \<open>\<open>int(ttl.total_seconds())\<close> for a \<open>timedelta\<close>, the int itself otherwise.\<close>

fun ttl_seconds :: "ttl \<Rightarrow> int" where
  "ttl_seconds (Seconds n) = n"
| "ttl_seconds (Timedelta us) =
     (if 0 \<le> us then float_div_trunc us 1000000 else - float_div_trunc (- us) 1000000)"

text \<open>
  \<open>time.time() + ttl\<close> with a float and an int: the int is converted to a double first,
  which raises \<open>OverflowError\<close> when it rounds beyond the largest double, that is from
  \<open>2^1024 - 2^970\<close> on. The sum itself is taken in the real numbers: the clock and the
  expiry instants of the cache are real numbers, and the rounding of a float sum is not
  part of this model.
\<close>

definition float_int_limit :: int where
  "float_int_limit = 2 ^ 1024 - 2 ^ 970"

definition fits_float :: "int \<Rightarrow> bool" where
  "fits_float n = (\<bar>n\<bar> < float_int_limit)"

definition float_add_int :: "real \<Rightarrow> int \<Rightarrow> py_error + real" where
  "float_add_int x n = (if fits_float n then Inr (x + real_of_int n) else Inl OverflowError)"




section \<open>The in-process store: \<open>InMemoryCache\<close>\<close>

text \<open>
  \<open>self.cache\<close> is an \<open>OrderedDict\<close> from key to \<open>(data, expires_at)\<close>: an association
  list in insertion order. \<open>self.cache[key] = x\<close> is \<open>AList.update\<close> (in place when the
  key is present, appended at the end otherwise), \<open>del self.cache[key]\<close> is
  \<open>AList.delete\<close>, \<open>key in self.cache\<close> is \<open>map_of\<close>. The clock \<open>time.time()\<close> is an
  argument \<open>now\<close>, a real number of seconds.
\<close>

record 'v InMemoryCache =
  cache :: "(string \<times> ('v \<times> real)) list"
  max_size :: int

definition InMemoryCache_init :: "int \<Rightarrow> 'v InMemoryCache" where
  "InMemoryCache_init n = \<lparr>cache = [], max_size = n\<rparr>"

text \<open>\<open>popitem(last=False)\<close>: removes the first item; \<open>KeyError\<close> on an empty dictionary.\<close>

fun popitem_first :: "('k \<times> 'x) list \<Rightarrow> py_error + ('k \<times> 'x) list" where
  "popitem_first [] = Inl KeyError"
| "popitem_first (kv # rest) = Inr rest"

text \<open>
  The body of the \<open>try\<close> of \<open>cache_data\<close>: the store that it leaves, and the exception
  that it raised, if any. The \<open>popitem\<close> raises on an empty dictionary, before anything
  is written; the sum \<open>time.time() + ttl\<close> raises after the oldest entry has been
  removed, and that removal stays.
\<close>

definition cache_data_try :: "'v InMemoryCache \<Rightarrow> string \<Rightarrow> 'v \<Rightarrow> ttl \<Rightarrow> real \<Rightarrow>
    'v InMemoryCache \<times> py_error option" where
  "cache_data_try c key data t now =
     (let secs = ttl_seconds t in
      case (if max_size c \<le> int (length (cache c)) then popitem_first (cache c)
            else Inr (cache c)) of
        Inl e \<Rightarrow> (c, Some e)
      | Inr al \<Rightarrow>
          (case float_add_int now secs of
             Inl e \<Rightarrow> (c\<lparr>cache := al\<rparr>, Some e)
           | Inr expires_at \<Rightarrow> (c\<lparr>cache := AList.update key (data, expires_at) al\<rparr>, None)))"

text \<open>\<open>except Exception\<close>: every exception is logged and turned into \<open>False\<close>.\<close>

definition InMemoryCache_cache_data :: "'v InMemoryCache \<Rightarrow> string \<Rightarrow> 'v \<Rightarrow> ttl \<Rightarrow> real \<Rightarrow>
    'v InMemoryCache \<times> bool" where
  "InMemoryCache_cache_data c key data t now =
     (case cache_data_try c key data t now of
        (c', None) \<Rightarrow> (c', True)
      | (c', Some e) \<Rightarrow> (c', False))"

definition InMemoryCache_get_cached_data :: "'v InMemoryCache \<Rightarrow> string \<Rightarrow> 'v \<Rightarrow> real \<Rightarrow>
    'v InMemoryCache \<times> 'v" where
  "InMemoryCache_get_cached_data c key dflt now =
     (case map_of (cache c) key of
        None \<Rightarrow> (c, dflt)
      | Some (data, expires_at) \<Rightarrow>
          if expires_at < now then (c\<lparr>cache := AList.delete key (cache c)\<rparr>, dflt)
          else (c, data))"

definition InMemoryCache_delete_cached_data :: "'v InMemoryCache \<Rightarrow> string \<Rightarrow>
    'v InMemoryCache \<times> bool" where
  "InMemoryCache_delete_cached_data c key =
     (if map_of (cache c) key \<noteq> None then (c\<lparr>cache := AList.delete key (cache c)\<rparr>, True)
      else (c, True))"

definition InMemoryCache_clear_cache :: "'v InMemoryCache \<Rightarrow> string \<Rightarrow>
    'v InMemoryCache \<times> bool" where
  "InMemoryCache_clear_cache c pattern = (c\<lparr>cache := []\<rparr>, True)"

text \<open>A call of one of the four operations, with the clock reading it meets.\<close>

datatype 'v cache_call =
    Put string 'v ttl real
  | Get string 'v real
  | Delete string
  | Clear string

fun InMemoryCache_call :: "'v InMemoryCache \<Rightarrow> 'v cache_call \<Rightarrow> 'v InMemoryCache" where
  "InMemoryCache_call c (Put key data t now) = fst (InMemoryCache_cache_data c key data t now)"
| "InMemoryCache_call c (Get key dflt now) = fst (InMemoryCache_get_cached_data c key dflt now)"
| "InMemoryCache_call c (Delete key) = fst (InMemoryCache_delete_cached_data c key)"
| "InMemoryCache_call c (Clear pattern) = fst (InMemoryCache_clear_cache c pattern)"

text \<open>A run of \<open>cache_data\<close> calls, each given as \<open>(key, data, ttl, now)\<close>.\<close>

fun put_all :: "'v InMemoryCache \<Rightarrow> (string \<times> 'v \<times> ttl \<times> real) list \<Rightarrow> 'v InMemoryCache" where
  "put_all c [] = c"
| "put_all c ((key, data, t, now) # rest) =
     put_all (fst (InMemoryCache_cache_data c key data t now)) rest"

text \<open>
  The times to live that the sum \<open>time.time() + ttl\<close> accepts, and the entry that a
  successful \<open>cache_data(key, data, ttl)\<close> at \<open>now\<close> writes.
\<close>

definition storable :: "ttl \<Rightarrow> bool" where
  "storable t = fits_float (ttl_seconds t)"





section \<open>The networked store: \<open>RedisCache\<close>\<close>

subsection \<open>The wire format\<close>

text \<open>
  \<open>json.dumps\<close> and \<open>json.loads\<close> belong to the Python library, not to the repository.
  They are modelled by their conversion table, with the text of a document abstracted to
  its syntax tree: \<open>dumps\<close> writes \<open>None\<close> as \<open>null\<close>, lists and tuples as arrays,
  dictionaries as objects, and raises \<open>TypeError\<close> on any other object; \<open>loads\<close> reads
  arrays as lists and objects as dictionaries.
\<close>

datatype json =
    JNull
  | JBool bool
  | JNum int
  | JStr string
  | JArr "json list"
  | JObj "(string \<times> json) list"

fun json_dumps :: "pyval \<Rightarrow> py_error + json"
  and dumps_list :: "pyval list \<Rightarrow> py_error + json list"
  and dumps_items :: "(string \<times> pyval) list \<Rightarrow> py_error + (string \<times> json) list" where
  "json_dumps PNone = Inr JNull"
| "json_dumps (PBool b) = Inr (JBool b)"
| "json_dumps (PInt i) = Inr (JNum i)"
| "json_dumps (PStr s) = Inr (JStr s)"
| "json_dumps (PList xs) = (case dumps_list xs of Inl e \<Rightarrow> Inl e | Inr js \<Rightarrow> Inr (JArr js))"
| "json_dumps (PTuple xs) = (case dumps_list xs of Inl e \<Rightarrow> Inl e | Inr js \<Rightarrow> Inr (JArr js))"
| "json_dumps (PDict kvs) = (case dumps_items kvs of Inl e \<Rightarrow> Inl e | Inr ms \<Rightarrow> Inr (JObj ms))"
| "json_dumps (PObject n) = Inl TypeError"
| "dumps_list [] = Inr []"
| "dumps_list (x # xs) =
     (case json_dumps x of
        Inl e \<Rightarrow> Inl e
      | Inr j \<Rightarrow> (case dumps_list xs of Inl e \<Rightarrow> Inl e | Inr js \<Rightarrow> Inr (j # js)))"
| "dumps_items [] = Inr []"
| "dumps_items ((k, x) # kvs) =
     (case json_dumps x of
        Inl e \<Rightarrow> Inl e
      | Inr j \<Rightarrow> (case dumps_items kvs of Inl e \<Rightarrow> Inl e | Inr ms \<Rightarrow> Inr ((k, j) # ms)))"

fun json_loads :: "json \<Rightarrow> pyval"
  and loads_list :: "json list \<Rightarrow> pyval list"
  and loads_items :: "(string \<times> json) list \<Rightarrow> (string \<times> pyval) list" where
  "json_loads JNull = PNone"
| "json_loads (JBool b) = PBool b"
| "json_loads (JNum i) = PInt i"
| "json_loads (JStr s) = PStr s"
| "json_loads (JArr js) = PList (loads_list js)"
| "json_loads (JObj ms) = PDict (loads_items ms)"
| "loads_list [] = []"
| "loads_list (j # js) = json_loads j # loads_list js"
| "loads_items [] = []"
| "loads_items ((k, j) # ms) = (k, json_loads j) # loads_items ms"

text \<open>
  A string held by the server is the text of a JSON document or it is not
  (\<open>json.loads\<close> raises \<open>JSONDecodeError\<close> on the latter).
\<close>

datatype wire = Doc json | Malformed string

fun loads_text :: "wire \<Rightarrow> py_error + pyval" where
  "loads_text (Doc j) = Inr (json_loads j)"
| "loads_text (Malformed s) = Inl JSONDecodeError"



fun nesting :: "pyval \<Rightarrow> nat"
  and nesting_list :: "pyval list \<Rightarrow> nat"
  and nesting_items :: "(string \<times> pyval) list \<Rightarrow> nat" where
  "nesting PNone = 0"
| "nesting (PBool b) = 0"
| "nesting (PInt i) = 0"
| "nesting (PStr s) = 0"
| "nesting (PList xs) = Suc (nesting_list xs)"
| "nesting (PTuple xs) = Suc (nesting_list xs)"
| "nesting (PDict kvs) = Suc (nesting_items kvs)"
| "nesting (PObject n) = 0"
| "nesting_list [] = 0"
| "nesting_list (x # xs) = max (nesting x) (nesting_list xs)"
| "nesting_items [] = 0"
| "nesting_items ((k, x) # kvs) = max (nesting x) (nesting_items kvs)"


subsection \<open>The backend\<close>

text \<open>
  The Redis server behind \<open>self.redis_client\<close> is outside the repository as well. Its
  model: the server is reachable or every command raises \<open>ConnectionError\<close>; it holds,
  for each key, a string and the instant at which the key expires, and a key whose
  instant has passed is absent for every command. \<open>SETEX\<close> refuses a time to live that
  is not positive, and whatever else the server at hand does not accept (a time to live
  beyond its range, a value beyond its size limit), with \<open>ResponseError\<close>: \<open>accepts\<close>
  tells, for a time to live in seconds and a value, whether the server takes the write.
  \<open>DEL\<close> answers with the number of keys that it removed. The server's clock is the
  argument \<open>now\<close>.
\<close>

record redis_server =
  reachable :: bool
  accepts :: "int \<Rightarrow> wire \<Rightarrow> bool"
  db :: "string \<Rightarrow> (wire \<times> real) option"

definition redis_lookup :: "redis_server \<Rightarrow> string \<Rightarrow> real \<Rightarrow> wire option" where
  "redis_lookup srv key now =
     (case db srv key of
        None \<Rightarrow> None
      | Some (s, expiry) \<Rightarrow> if expiry < now then None else Some s)"

definition redis_setex :: "redis_server \<Rightarrow> string \<Rightarrow> int \<Rightarrow> wire \<Rightarrow> real \<Rightarrow>
    py_error + (redis_server \<times> bool)" where
  "redis_setex srv key secs s now =
     (if \<not> reachable srv then Inl ConnectionError
      else if secs \<le> 0 \<or> \<not> accepts srv secs s then Inl ResponseError
      else Inr (srv\<lparr>db := (db srv)(key \<mapsto> (s, now + real_of_int secs))\<rparr>, True))"

definition redis_get :: "redis_server \<Rightarrow> string \<Rightarrow> real \<Rightarrow> py_error + wire option" where
  "redis_get srv key now =
     (if \<not> reachable srv then Inl ConnectionError else Inr (redis_lookup srv key now))"

definition redis_delete :: "redis_server \<Rightarrow> string \<Rightarrow> real \<Rightarrow>
    py_error + (redis_server \<times> int)" where
  "redis_delete srv key now =
     (if \<not> reachable srv then Inl ConnectionError
      else Inr (srv\<lparr>db := (db srv)(key := None)\<rparr>,
                if redis_lookup srv key now = None then 0 else 1))"

subsection \<open>The methods of \<open>RedisCache\<close>\<close>

text \<open>
  \<open>except (redis.RedisError, json.JSONDecodeError)\<close>: these exceptions give the fallback
  result, any other exception leaves the method.
\<close>

definition except_redis_json :: "py_error \<Rightarrow> 'a \<Rightarrow> py_error + 'a" where
  "except_redis_json e fallback =
     (if is_RedisError e \<or> e = JSONDecodeError then Inr fallback else Inl e)"

definition RedisCache_cache_data :: "redis_server \<Rightarrow> string \<Rightarrow> pyval \<Rightarrow> ttl \<Rightarrow> real \<Rightarrow>
    py_error + (redis_server \<times> bool)" where
  "RedisCache_cache_data srv key data t now =
     (let secs = ttl_seconds t in
      case json_dumps data of
        Inl e \<Rightarrow> except_redis_json e (srv, False)
      | Inr serialized_data \<Rightarrow>
          (case redis_setex srv key secs (Doc serialized_data) now of
             Inl e \<Rightarrow> except_redis_json e (srv, False)
           | Inr (srv', ok) \<Rightarrow> Inr (srv', ok)))"

definition RedisCache_get_cached_data :: "redis_server \<Rightarrow> string \<Rightarrow> pyval \<Rightarrow> real \<Rightarrow>
    py_error + pyval" where
  "RedisCache_get_cached_data srv key dflt now =
     (case redis_get srv key now of
        Inl e \<Rightarrow> except_redis_json e dflt
      | Inr None \<Rightarrow> Inr dflt
      | Inr (Some cached) \<Rightarrow>
          (case loads_text cached of
             Inl e \<Rightarrow> except_redis_json e dflt
           | Inr v \<Rightarrow> Inr v))"

text \<open>\<open>except redis.RedisError\<close> around \<open>bool(self.redis_client.delete(key))\<close>.\<close>

definition RedisCache_delete_cached_data :: "redis_server \<Rightarrow> string \<Rightarrow> real \<Rightarrow>
    py_error + (redis_server \<times> bool)" where
  "RedisCache_delete_cached_data srv key now =
     (case redis_delete srv key now of
        Inl e \<Rightarrow> if is_RedisError e then Inr (srv, False) else Inl e
      | Inr (srv', removed) \<Rightarrow> Inr (srv', removed \<noteq> 0))"

section \<open>The decorator \<open>cache_response\<close>\<close>

text \<open>
  \<open>default_cache\<close> is one of the two stores (or \<open>None\<close>). Its in-process store is an
  \<open>InMemoryCache\<close> as Python holds it: an \<open>OrderedDict\<close> has each key once. The type
  \<open>live_cache\<close> is that of the records whose keys are distinct; \<open>live c\<close> is the record
  \<open>c\<close> as a member of it and \<open>cache_of\<close> gives the record back. A call of a method
  either returns or raises; the store it leaves is returned in both cases.
\<close>

typedef 'v live_cache = "{c :: 'v InMemoryCache. distinct (map fst (cache c))}"
  morphisms cache_of live
proof
  show "\<lparr>cache = [], max_size = 0\<rparr> \<in> {c :: 'v InMemoryCache. distinct (map fst (cache c))}"
    by simp
qed

datatype default_cache = InMemory "pyval live_cache" | Redis redis_server

fun get_cached_data :: "default_cache \<Rightarrow> string \<Rightarrow> pyval \<Rightarrow> real \<Rightarrow>
    (py_error + pyval) \<times> default_cache" where
  "get_cached_data (InMemory s) key dflt now =
     (case InMemoryCache_get_cached_data (cache_of s) key dflt now of
        (c', v) \<Rightarrow> (Inr v, InMemory (live c')))"
| "get_cached_data (Redis srv) key dflt now =
     (RedisCache_get_cached_data srv key dflt now, Redis srv)"

fun cache_data :: "default_cache \<Rightarrow> string \<Rightarrow> pyval \<Rightarrow> ttl \<Rightarrow> real \<Rightarrow>
    (py_error + bool) \<times> default_cache" where
  "cache_data (InMemory s) key data t now =
     (case InMemoryCache_cache_data (cache_of s) key data t now of
        (c', ok) \<Rightarrow> (Inr ok, InMemory (live c')))"
| "cache_data (Redis srv) key data t now =
     (case RedisCache_cache_data srv key data t now of
        Inl e \<Rightarrow> (Inl e, Redis srv)
      | Inr (srv', ok) \<Rightarrow> (Inr ok, Redis srv'))"

text \<open>
  \<open>f"{func.__name__}:{hash(str(args) + str(kwargs))}"\<close>, the hash of the arguments given
  as its decimal text.
\<close>

definition cache_key :: "string \<Rightarrow> string \<Rightarrow> string" where
  "cache_key name args_hash = name @ '':'' @ args_hash"

text \<open>
  The wrapper. The wrapped computation \<open>func\<close> acts on a state \<open>'w\<close> of its own, so that
  a call of it can be told from no call; \<open>t_get\<close> and \<open>t_put\<close> are the clock readings of
  the read and of the write. The result is the returned value or the raised exception,
  the store and the state of the computation.
\<close>

definition cache_response :: "ttl \<Rightarrow> string \<Rightarrow> ('w \<Rightarrow> pyval \<times> 'w) \<Rightarrow> default_cache option \<Rightarrow>
    string \<Rightarrow> real \<Rightarrow> real \<Rightarrow> 'w \<Rightarrow> (py_error + pyval) \<times> default_cache option \<times> 'w" where
  "cache_response t name func dc args_hash t_get t_put w =
     (case dc of
        None \<Rightarrow> (case func w of (response, w') \<Rightarrow> (Inr response, None, w'))
      | Some store \<Rightarrow>
          (case get_cached_data store (cache_key name args_hash) PNone t_get of
             (Inl e, store1) \<Rightarrow> (Inl e, Some store1, w)
           | (Inr cached_response, store1) \<Rightarrow>
               if cached_response \<noteq> PNone then (Inr cached_response, Some store1, w)
               else (case func w of
                       (response, w') \<Rightarrow>
                         (case cache_data store1 (cache_key name args_hash) response t t_put of
                            (Inl e, store2) \<Rightarrow> (Inl e, Some store2, w')
                          | (Inr ok, store2) \<Rightarrow> (Inr response, Some store2, w')))))"

section \<open>The rotation manager: \<open>ProxyManager\<close>\<close>

text \<open>
  The two Python sets \<open>healthy_proxies\<close> and \<open>unhealthy_proxies\<close> are lists read as the
  sets of their elements: \<open>add\<close> is \<open>List.insert\<close>, \<open>remove\<close> is \<open>set_remove\<close> below,
  \<open>list(s)\<close> is \<open>remdups\<close>. \<open>proxy_health_checks\<close> maps an address to the
  \<open>datetime\<close> of its last check, in microseconds.
\<close>

record ProxyManager =
  proxies :: "string list"
  healthy_proxies :: "string list"
  unhealthy_proxies :: "string list"
  proxy_health_checks :: "string \<Rightarrow> int option"
  check_proxy_health :: bool
  use_fake_ua :: bool
  user_agents :: "string list"

text \<open>
  What the manager meets outside itself, as functions of a state \<open>'w\<close> of the outside
  world: the answer to the \<open>requests.get\<close> of a probe through a proxy (the status code,
  or \<open>None\<close> when the request raises) with the world after it, \<open>datetime.now()\<close> in
  microseconds, and the string that \<open>self.ua.random\<close> produces.
\<close>

record 'w environment =
  request :: "'w \<Rightarrow> string \<Rightarrow> nat option \<times> 'w"
  clock :: "'w \<Rightarrow> int"
  fake_useragent :: "'w \<Rightarrow> string"

text \<open>\<open>_check_proxy_health\<close>: status code 200, and \<open>False\<close> on every exception.\<close>

definition probe_proxy_health :: "'w environment \<Rightarrow> 'w \<Rightarrow> string \<Rightarrow> bool \<times> 'w" where
  "probe_proxy_health E w proxy =
     (case request E w proxy of
        (Some status_code, w') \<Rightarrow> (status_code = 200, w')
      | (None, w') \<Rightarrow> (False, w'))"

fun check_all_loop :: "'w environment \<Rightarrow> string list \<Rightarrow> ProxyManager \<Rightarrow> 'w \<Rightarrow>
    ProxyManager \<times> 'w" where
  "check_all_loop E [] st w = (st, w)"
| "check_all_loop E (proxy # rest) st w =
     (case probe_proxy_health E w proxy of
        (True, w') \<Rightarrow>
          check_all_loop E rest
            (st\<lparr>healthy_proxies := List.insert proxy (healthy_proxies st),
                proxy_health_checks := (proxy_health_checks st)(proxy \<mapsto> clock E w')\<rparr>) w'
      | (False, w') \<Rightarrow>
          check_all_loop E rest
            (st\<lparr>unhealthy_proxies := List.insert proxy (unhealthy_proxies st)\<rparr>) w')"

definition check_all_proxies :: "'w environment \<Rightarrow> ProxyManager \<Rightarrow> 'w \<Rightarrow> ProxyManager \<times> 'w" where
  "check_all_proxies E st w = check_all_loop E (proxies st) st w"

definition fallback_user_agents :: "string list" where
  "fallback_user_agents =
     [''Mozilla/5.0 (Windows NT 10.0; Win64; x64) AppleWebKit/537.36 (KHTML, like Gecko) Chrome/122.0.0.0 Safari/537.36'',
      ''Mozilla/5.0 (Macintosh; Intel Mac OS X 10_15_7) AppleWebKit/605.1.15 (KHTML, like Gecko) Version/17.0 Safari/605.1.15'',
      ''Mozilla/5.0 (Windows NT 10.0; Win64; x64; rv:123.0) Gecko/20100101 Firefox/123.0'',
      ''Mozilla/5.0 (X11; Linux x86_64) AppleWebKit/537.36 (KHTML, like Gecko) Chrome/122.0.0.0 Safari/537.36'',
      ''Mozilla/5.0 (iPhone; CPU iPhone OS 17_3_1 like Mac OS X) AppleWebKit/605.1.15 (KHTML, like Gecko) Version/17.0 Mobile/15E148 Safari/604.1'',
      ''Mozilla/5.0 (iPad; CPU OS 17_3_1 like Mac OS X) AppleWebKit/605.1.15 (KHTML, like Gecko) Version/17.0 Mobile/15E148 Safari/604.1'']"

text \<open>
  \<open>__init__\<close>. \<open>fake_ua_ok\<close> tells whether \<open>UserAgent()\<close> could be built; \<open>x or []\<close> takes
  the second operand for \<open>None\<close> and for the empty list.
\<close>

definition ProxyManager_init :: "'w environment \<Rightarrow> string list option \<Rightarrow> string list option \<Rightarrow>
    bool \<Rightarrow> bool \<Rightarrow> 'w \<Rightarrow> ProxyManager \<times> 'w" where
  "ProxyManager_init E proxies_arg user_agents_arg check fake_ua_ok w =
     (let st = \<lparr>proxies = (case proxies_arg of None \<Rightarrow> [] | Some ps \<Rightarrow> ps),
                healthy_proxies = [],
                unhealthy_proxies = [],
                proxy_health_checks = Map.empty,
                check_proxy_health = check,
                use_fake_ua = fake_ua_ok,
                user_agents = (case user_agents_arg of
                                 None \<Rightarrow> fallback_user_agents
                               | Some [] \<Rightarrow> fallback_user_agents
                               | Some uas \<Rightarrow> uas)\<rparr>
      in if proxies st \<noteq> [] \<and> check then check_all_proxies E st w else (st, w))"

text \<open>
  A random draw is given by the list of its equally likely outcomes:
  \<open>random.choice(xs)\<close> takes each position of \<open>xs\<close> with the same probability, so its
  outcomes are \<open>xs\<close> itself; on an empty sequence it raises \<open>IndexError\<close>.
\<close>

definition random_choice :: "'a list \<Rightarrow> py_error + 'a list" where
  "random_choice xs = (if xs = [] then Inl IndexError else Inr xs)"

definition get_random_user_agent :: "'w environment \<Rightarrow> ProxyManager \<Rightarrow> 'w \<Rightarrow>
    py_error + string list" where
  "get_random_user_agent E st w =
     (if use_fake_ua st then Inr [fake_useragent E w] else random_choice (user_agents st))"

text \<open>\<open>s.remove(x)\<close> on a set: \<open>KeyError\<close> when \<open>x\<close> is not a member.\<close>

definition set_remove :: "string \<Rightarrow> string list \<Rightarrow> py_error + string list" where
  "set_remove x s = (if x \<in> set s then Inr (removeAll x s) else Inl KeyError)"

text \<open>\<open>timedelta(minutes=30)\<close> in microseconds.\<close>

definition recheck_interval :: int where
  "recheck_interval = 1800000000"

definition recheck_due :: "ProxyManager \<Rightarrow> int \<Rightarrow> string \<Rightarrow> bool" where
  "recheck_due st current_time proxy =
     (case proxy_health_checks st proxy of
        None \<Rightarrow> True
      | Some last_check \<Rightarrow> recheck_interval < current_time - last_check)"

text \<open>The loop \<open>for proxy in list(self.unhealthy_proxies)\<close> of \<open>get_random_proxy\<close>.\<close>

fun recheck_loop :: "'w environment \<Rightarrow> int \<Rightarrow> string list \<Rightarrow> ProxyManager \<Rightarrow> 'w \<Rightarrow>
    py_error + (ProxyManager \<times> 'w)" where
  "recheck_loop E current_time [] st w = Inr (st, w)"
| "recheck_loop E current_time (proxy # rest) st w =
     (if recheck_due st current_time proxy then
        (case probe_proxy_health E w proxy of
           (True, w') \<Rightarrow>
             (case set_remove proxy (unhealthy_proxies st) of
                Inl e \<Rightarrow> Inl e
              | Inr u \<Rightarrow>
                  recheck_loop E current_time rest
                    (st\<lparr>unhealthy_proxies := u,
                        healthy_proxies := List.insert proxy (healthy_proxies st),
                        proxy_health_checks := (proxy_health_checks st)(proxy \<mapsto> current_time)\<rparr>)
                    w')
         | (False, w') \<Rightarrow>
             recheck_loop E current_time rest
               (st\<lparr>proxy_health_checks := (proxy_health_checks st)(proxy \<mapsto> current_time)\<rparr>) w')
      else recheck_loop E current_time rest st w)"

text \<open>The dictionary \<open>{"http": proxy, "https": proxy}\<close>.\<close>

definition proxy_dict :: "string \<Rightarrow> (string \<times> string) list" where
  "proxy_dict proxy = [(''http'', proxy), (''https'', proxy)]"

text \<open>
  \<open>get_random_proxy\<close>: the manager and the world after the call, and the equally likely
  return values.
\<close>

definition get_random_proxy :: "'w environment \<Rightarrow> ProxyManager \<Rightarrow> 'w \<Rightarrow>
    py_error + (ProxyManager \<times> 'w \<times> (string \<times> string) list option list)" where
  "get_random_proxy E st w =
     (if proxies st = [] then Inr (st, w, [None])
      else
        (let current_time = clock E w in
         case recheck_loop E current_time (remdups (unhealthy_proxies st)) st w of
           Inl e \<Rightarrow> Inl e
         | Inr (st', w') \<Rightarrow>
             if healthy_proxies st' \<noteq> [] then
               (case random_choice (remdups (healthy_proxies st')) of
                  Inl e \<Rightarrow> Inl e
                | Inr ps \<Rightarrow> Inr (st', w', map (\<lambda>proxy. Some (proxy_dict proxy)) ps))
             else if proxies st' \<noteq> [] then
               (case random_choice (proxies st') of
                  Inl e \<Rightarrow> Inl e
                | Inr ps \<Rightarrow> Inr (st', w', map (\<lambda>proxy. Some (proxy_dict proxy)) ps))
             else Inr (st', w', [None])))"

record request_metadata =
  meta_headers :: "(string \<times> string) list"
  meta_proxies :: "(string \<times> string) list option"

definition request_headers :: "string \<Rightarrow> (string \<times> string) list" where
  "request_headers ua =
     [(''User-Agent'', ua),
      (''Accept'', ''text/html,application/xhtml+xml,application/xml;q=0.9,image/avif,image/webp,*/*;q=0.8''),
      (''Accept-Language'', ''en-US,en;q=0.5''),
      (''Accept-Encoding'', ''gzip, deflate, br''),
      (''DNT'', ''1''),
      (''Connection'', ''keep-alive''),
      (''Upgrade-Insecure-Requests'', ''1''),
      (''Sec-Fetch-Dest'', ''document''),
      (''Sec-Fetch-Mode'', ''navigate''),
      (''Sec-Fetch-Site'', ''none''),
      (''Sec-Fetch-User'', ''?1''),
      (''Pragma'', ''no-cache''),
      (''Cache-Control'', ''no-cache'')]"

text \<open>
  \<open>get_request_metadata\<close>: the user agent is drawn first, then the proxy; the outcomes
  are the pairs of the two draws.
\<close>

definition get_request_metadata :: "'w environment \<Rightarrow> ProxyManager \<Rightarrow> 'w \<Rightarrow>
    py_error + (ProxyManager \<times> 'w \<times> request_metadata list)" where
  "get_request_metadata E st w =
     (case get_random_user_agent E st w of
        Inl e \<Rightarrow> Inl e
      | Inr uas \<Rightarrow>
          (case get_random_proxy E st w of
             Inl e \<Rightarrow> Inl e
           | Inr (st', w', ps) \<Rightarrow>
               Inr (st', w',
                    concat (map (\<lambda>ua. map (\<lambda>p. \<lparr>meta_headers = request_headers ua,
                                                  meta_proxies = p\<rparr>) ps)
                                uas))))"

text \<open>
  Successive calls of \<open>get_random_proxy\<close>, each in the world that it meets: the manager
  after the last call and the outcomes of each call.
\<close>

fun proxy_calls :: "'w environment \<Rightarrow> ProxyManager \<Rightarrow> 'w list \<Rightarrow>
    py_error + (ProxyManager \<times> (string \<times> string) list option list list)" where
  "proxy_calls E st [] = Inr (st, [])"
| "proxy_calls E st (w # ws) =
     (case get_random_proxy E st w of
        Inl e \<Rightarrow> Inl e
      | Inr (st', w', outs) \<Rightarrow>
          (case proxy_calls E st' ws of
             Inl e \<Rightarrow> Inl e
           | Inr (st'', rest) \<Rightarrow> Inr (st'', outs # rest)))"

text \<open>Every address of the pool is in exactly one of the two sets.\<close>

definition partitioned :: "ProxyManager \<Rightarrow> bool" where
  "partitioned st =
     (set (healthy_proxies st) \<inter> set (unhealthy_proxies st) = {} \<and>
      set (healthy_proxies st) \<union> set (unhealthy_proxies st) = set (proxies st))"

section \<open>Concrete stores and computations of the examples\<close>

text \<open>
  A reachable backend without keys that takes a time to live up to
  \<open>9223372036854775\<close> seconds (a 64-bit count of milliseconds), and the backend after
  \<open>cache_data("test_key", {"data": "test"}, 60)\<close> at time 0.
\<close>

definition empty_server :: redis_server where
  "empty_server = \<lparr>reachable = True,
                    accepts = (\<lambda>secs value. secs \<le> 9223372036854775),
                    db = Map.empty\<rparr>"


text \<open>An in-process store of capacity 2 that holds two entries.\<close>

definition full_store :: "pyval InMemoryCache" where
  "full_store = put_all (InMemoryCache_init 2)
     [(''a'', PInt 1, Seconds 60, 0), (''b'', PInt 2, Seconds 60, 1)]"

text \<open>
  The store of the decorator with and without an entry for the key of \<open>get_data\<close>, and
  a computation that returns \<open>None\<close> and counts its calls.
\<close>

definition warm_store :: default_cache where
  "warm_store = InMemory (live (fst (InMemoryCache_cache_data (InMemoryCache_init 1000)
      (cache_key ''get_data'' ''42'') (PStr ''expensive'') (Seconds 300) 0)))"

definition cold_store :: default_cache where
  "cold_store = InMemory (live (InMemoryCache_init 1000))"

definition none_func :: "nat \<Rightarrow> pyval \<times> nat" where
  "none_func calls = (PNone, Suc calls)"

text \<open>
  Two environments whose world is the clock reading: in the first the probe through
  \<open>http://p1:8080\<close> answers 200 and every other probe answers 503, in the second every
  probe times out. A probe takes one microsecond.
\<close>

definition lab_env :: "int environment" where
  "lab_env = \<lparr>request = (\<lambda>w proxy. (if proxy = ''http://p1:8080'' then Some 200 else Some 503, w + 1)),
              clock = (\<lambda>w. w),
              fake_useragent = (\<lambda>w. ''Mozilla/5.0 (generated)'')\<rparr>"

definition dead_env :: "int environment" where
  "dead_env = \<lparr>request = (\<lambda>w proxy. (None, w + 1)),
               clock = (\<lambda>w. w),
               fake_useragent = (\<lambda>w. ''Mozilla/5.0 (generated)'')\<rparr>"

text \<open>
  A manager with one healthy address and one unhealthy address that was checked at
  time 100.
\<close>

definition one_healthy :: ProxyManager where
  "one_healthy = \<lparr>proxies = [''http://p1:8080'', ''http://p2:8080''],
                  healthy_proxies = [''http://p1:8080''],
                  unhealthy_proxies = [''http://p2:8080''],
                  proxy_health_checks = [''http://p1:8080'' \<mapsto> 1, ''http://p2:8080'' \<mapsto> 100],
                  check_proxy_health = True,
                  use_fake_ua = False,
                  user_agents = fallback_user_agents\<rparr>"

text \<open>
  Managers built by \<open>__init__\<close>: a pool of one address whose probe fails, an empty pool,
  the manager of the repository's test (health checking disabled), and a pool of two
  addresses of which the first answers its probe.
\<close>

definition dead_pool :: ProxyManager where
  "dead_pool = fst (ProxyManager_init dead_env (Some [''http://p1:8080'']) None True False 0)"

definition empty_pool :: ProxyManager where
  "empty_pool = fst (ProxyManager_init dead_env None None True False 0)"

definition unchecked_pool :: ProxyManager where
  "unchecked_pool = fst (ProxyManager_init dead_env (Some [''http://test-proxy:8080'']) None False True 0)"

definition lab_pool :: ProxyManager where
  "lab_pool = fst (ProxyManager_init lab_env (Some [''http://p1:8080'', ''http://p2:8080''])
                     None True False 0)"

section \<open>Properties of the conversions\<close>

lemma bit_length_le: "n < 2 ^ k \<Longrightarrow> bit_length n \<le> k"
proof (induction k arbitrary: n)
  case 0
  then show ?case by (simp add: bit_length.simps)
next
  case (Suc k)
  then have "n div 2 < 2 ^ k" by simp
  from Suc.IH [OF this] show ?case by (subst bit_length.simps) simp
qed

lemma bit_length_gt: "2 ^ k \<le> n \<Longrightarrow> k < bit_length n"
proof (induction k arbitrary: n)
  case 0
  then show ?case by (subst bit_length.simps) simp
next
  case (Suc k)
  then have "2 ^ k \<le> n div 2" by simp
  moreover have "0 < n"
  proof -
    have "(0::nat) < 2 ^ Suc k" by simp
    with Suc.prems show ?thesis by linarith
  qed
  ultimately show ?case using Suc.IH [of "n div 2"] by (subst bit_length.simps) simp
qed

lemma rne_div_lower: "n div d \<le> rne_div n d"
  by (simp add: rne_div_def Let_def)

lemma rne_div_upper:
  assumes "0 < d"
  shows "2 * d * rne_div n d \<le> 2 * n + d"
proof -
  have n: "n = d * (n div d) + n mod d" by simp
  have r: "0 \<le> n mod d" using assms by simp
  show ?thesis
  proof (cases "2 * (n mod d) < d \<or> (2 * (n mod d) = d \<and> even (n div d))")
    case True
    then have "rne_div n d = n div d" by (simp add: rne_div_def Let_def)
    moreover have "2 * d * (n div d) \<le> 2 * n + d"
    proof -
      have "2 * n = 2 * (d * (n div d)) + 2 * (n mod d)" using n by (metis distrib_left)
      with r assms show ?thesis by simp
    qed
    ultimately show ?thesis by simp
  next
    case False
    then have m: "rne_div n d = n div d + 1" by (simp add: rne_div_def Let_def)
    from False have "d \<le> 2 * (n mod d)" by auto
    moreover have "2 * n = 2 * (d * (n div d)) + 2 * (n mod d)" using n by (metis distrib_left)
    ultimately show ?thesis by (simp add: m algebra_simps)
  qed
qed

lemma binade_le:
  assumes "0 < a" "a < 2 ^ 53"
  shows "binade a 1000000 \<le> 33"
proof -
  have "nat a < 2 ^ 53" using assms by (simp add: nat_less_iff)
  then have "bit_length (nat a) \<le> 53" by (rule bit_length_le)
  moreover have "19 < bit_length (nat 1000000)" by (rule bit_length_gt) simp
  ultimately have "int (bit_length (nat a)) - int (bit_length (nat 1000000)) \<le> 33" by simp
  then show ?thesis by (auto simp: binade_def Let_def)
qed

text \<open>
  Below \<open>2^53\<close> microseconds the double keeps enough digits: the truncated quotient is the
  whole number of seconds.
\<close>

lemma float_div_trunc_exact:
  assumes "0 \<le> a" "a < 2 ^ 53"
  shows "float_div_trunc a 1000000 = a div 1000000"
proof (cases "a = 0")
  case True
  then show ?thesis by (simp add: float_div_trunc_def)
next
  case False
  with assms have pos: "0 < a" by simp
  define s where "s = nat (52 - binade a 1000000)"
  define P :: int where "P = 2 ^ s"
  define m where "m = rne_div (a * P) 1000000"
  from binade_le [OF pos assms(2)] have s: "19 \<le> s" by (simp add: s_def)
  have val: "float_div_trunc a 1000000 = m div P"
    using False binade_le [OF pos assms(2)]
    by (simp add: float_div_trunc_def Let_def m_def P_def s_def)
  have "(2::int) ^ 19 \<le> 2 ^ s" using s by (intro power_increasing) simp_all
  then have P: "524288 \<le> P" by (simp add: P_def)
  define n where "n = a div 1000000"
  define r where "r = a mod 1000000"
  have a: "a = 1000000 * n + r" and r: "0 \<le> r" "r < 1000000"
    by (simp_all add: n_def r_def)
  have lower: "n * P \<le> m"
  proof -
    have "n * P = (1000000 * (n * P)) div 1000000" by simp
    also have "\<dots> \<le> (a * P) div 1000000"
    proof (rule zdiv_mono1)
      have "0 \<le> r * P" using r(1) P by simp
      then show "1000000 * (n * P) \<le> a * P" by (simp add: a algebra_simps)
    qed simp
    also have "\<dots> \<le> m" unfolding m_def by (rule rne_div_lower)
    finally show ?thesis .
  qed
  have upper: "m < (n + 1) * P"
  proof -
    from rne_div_upper [of 1000000 "a * P"] have "2000000 * m \<le> 2 * (a * P) + 1000000"
      by (simp add: m_def)
    also have "2 * (a * P) = 2000000 * (n * P) + 2 * (r * P)" by (simp add: a algebra_simps)
    also have "r * P \<le> 999999 * P" using r(2) P by (intro mult_right_mono) simp_all
    finally have "2000000 * m \<le> 2000000 * (n * P) + 1999998 * P + 1000000" by simp
    also have "\<dots> < 2000000 * (n * P) + 2000000 * P" using P by simp
    finally have "2000000 * m < 2000000 * ((n + 1) * P)" by (simp add: algebra_simps)
    then show ?thesis by simp
  qed
  have "m div P = n"
  proof (rule int_div_pos_eq)
    show "m = P * n + (m - n * P)" by (simp add: algebra_simps)
    show "0 \<le> m - n * P" using lower by simp
    show "m - n * P < P" using upper by (simp add: algebra_simps)
  qed
  with val show ?thesis by (simp add: n_def)
qed


lemma ttl_seconds_negative:
  assumes "us < 0" "- (2 ^ 53) < us"
  shows "ttl_seconds (Timedelta us) = - ((- us) div 1000000)"
  using assms by (simp add: float_div_trunc_exact)


lemma fits_float_exact: "\<bar>n\<bar> \<le> 2 ^ 53 \<Longrightarrow> fits_float n"
proof -
  assume n: "\<bar>n\<bar> \<le> 2 ^ 53"
  have "(2::int) ^ 970 + 2 ^ 970 = 2 ^ 971" by simp
  moreover have "(2::int) ^ 971 \<le> 2 ^ 1024" by (intro power_increasing) simp_all
  moreover have "(2::int) ^ 53 < 2 ^ 970" by (intro power_strict_increasing) simp_all
  ultimately have "(2::int) ^ 53 < 2 ^ 1024 - 2 ^ 970" by linarith
  with n show ?thesis unfolding fits_float_def float_int_limit_def by linarith
qed

lemma not_fits_float_huge: "\<not> fits_float (2 ^ 1024)"
proof -
  have "(0::int) < 2 ^ 970" by simp
  then show ?thesis unfolding fits_float_def float_int_limit_def by simp
qed




lemma storable_Seconds: "storable (Seconds n) = (\<bar>n\<bar> < float_int_limit)"
  by (simp add: storable_def fits_float_def)

section \<open>Properties of the two stores\<close>

subsection \<open>Capacity\<close>

lemma update_fresh: "k \<notin> fst ` set al \<Longrightarrow> AList.update k v al = al @ [(k, v)]"
  by (induction al) auto


lemma cache_data_cases:
  "InMemoryCache_cache_data c key data t now =
     (if max_size c \<le> int (length (cache c)) then
        (if cache c = [] then (c, False)
         else if storable t then
           (c\<lparr>cache := AList.update key (data, now + real_of_int (ttl_seconds t)) (tl (cache c))\<rparr>,
            True)
         else (c\<lparr>cache := tl (cache c)\<rparr>, False))
      else if storable t then
        (c\<lparr>cache := AList.update key (data, now + real_of_int (ttl_seconds t)) (cache c)\<rparr>, True)
      else (c, False))"
  by (cases "cache c")
     (simp_all add: InMemoryCache_cache_data_def cache_data_try_def float_add_int_def storable_def
       Let_def)

lemma max_size_cache_data [simp]:
  "max_size (fst (InMemoryCache_cache_data c key data t now)) = max_size c"
  by (simp add: cache_data_cases)

lemma max_size_call [simp]: "max_size (InMemoryCache_call c op) = max_size c"
  by (cases op) (auto simp: InMemoryCache_get_cached_data_def InMemoryCache_delete_cached_data_def
      InMemoryCache_clear_cache_def split: option.splits)





lemma max_size_put_all [simp]: "max_size (put_all c items) = max_size c"
  by (induction c items rule: put_all.induct) auto








text \<open>
  A time to live that the sum refuses: at capacity 2, after the puts of \<open>a\<close> and \<open>b\<close>, a
  put of \<open>c\<close> with the time to live \<open>2**1024\<close> removes \<open>a\<close>, raises, returns \<open>False\<close>
  and stores nothing.
\<close>

lemma overflow_put_evicts_then_fails:
  "InMemoryCache_cache_data
     (put_all (InMemoryCache_init 2) [(''a'', PInt 1, Seconds 60, 0), (''b'', PInt 2, Seconds 60, 1)])
     ''c'' (PInt 3) (Seconds (2 ^ 1024)) 2
   = (\<lparr>cache = [(''b'', (PInt 2, 61))], max_size = 2\<rparr>, False)"
  using not_fits_float_huge
  by (simp add: cache_data_cases InMemoryCache_init_def storable_def fits_float_exact)

subsection \<open>Writes, reads and expiry\<close>


text \<open>A tuple is written as an array and read back as a list.\<close>

lemma tuple_read_back_as_list:
  "json_dumps (PTuple [PInt 1, PInt 2]) = Inr (JArr [JNum 1, JNum 2]) \<and>
   json_loads (JArr [JNum 1, JNum 2]) = PList [PInt 1, PInt 2]"
  by simp

lemma json_dumps_error: "json_dumps v = Inl e \<Longrightarrow> e = TypeError"
  "dumps_list xs = Inl e \<Longrightarrow> e = TypeError"
  "dumps_items kvs = Inl e \<Longrightarrow> e = TypeError"
  by (induction v and xs and kvs rule: json_dumps_dumps_list_dumps_items.induct)
     (auto split: sum.splits)
















subsection \<open>Failures of the networked store\<close>

lemma RedisCache_cache_data_unserializable:
  assumes "json_dumps data = Inl e"
  shows "RedisCache_cache_data srv key data t now = Inl TypeError"
  using assms json_dumps_error(1) [OF assms]
  by (simp add: RedisCache_cache_data_def except_redis_json_def)

text \<open>
  Claim C3 (not met by the code). \<open>RedisCache.cache_data\<close> catches
  \<open>redis.RedisError\<close> and \<open>json.JSONDecodeError\<close>, but \<open>json.dumps\<close> raises
  \<open>TypeError\<close> on a value that it cannot write, such as the \<open>datetime\<close> in the
  response dictionary that the endpoint caches: the exception reaches the caller.
\<close>

theorem RedisCache_cache_data_raises:
  "RedisCache_cache_data empty_server ''dispensary:shop:1''
      (PDict [(''status'', PStr ''success''), (''timestamp'', PObject 0)])
      (Timedelta 1800000000) 0 = Inl TypeError"
  by (simp add: RedisCache_cache_data_def except_redis_json_def)

lemma InMemoryCache_delete_idempotent:
  "snd (InMemoryCache_delete_cached_data c key) \<and>
   InMemoryCache_delete_cached_data (fst (InMemoryCache_delete_cached_data c key)) key =
     InMemoryCache_delete_cached_data c key"
  by (simp add: InMemoryCache_delete_cached_data_def delete_conv')

lemma RedisCache_delete_result:
  assumes "reachable srv"
  shows "\<exists>srv'. RedisCache_delete_cached_data srv key now =
           Inr (srv', redis_lookup srv key now \<noteq> None)"
  using assms by (simp add: RedisCache_delete_cached_data_def redis_delete_def)

text \<open>
  Claim C7 (not met by the code). On a reachable backend that does not hold the key,
  \<open>RedisCache.delete_cached_data\<close> returns \<open>bool(0)\<close>, that is \<open>False\<close>, where
  \<open>InMemoryCache.delete_cached_data\<close> returns \<open>True\<close>.
\<close>

theorem RedisCache_delete_absent_reports_failure:
  "RedisCache_delete_cached_data empty_server ''test_key'' 0 = Inr (empty_server, False) \<and>
   InMemoryCache_delete_cached_data (InMemoryCache_init 1000 :: pyval InMemoryCache) ''test_key''
     = (InMemoryCache_init 1000, True)"
  by (simp add: RedisCache_delete_cached_data_def redis_delete_def redis_lookup_def
      empty_server_def InMemoryCache_delete_cached_data_def InMemoryCache_init_def)

subsection \<open>Overwriting at capacity\<close>

lemma update_present_keys: "k \<in> fst ` set al \<Longrightarrow> map fst (AList.update k v al) = map fst al"
  by (simp add: update_keys)

text \<open>
  Claim C9. When the in-process store is at full capacity and \<open>cache_data\<close> is called
  with a key that is present, the oldest-inserted entry is removed before the write. For
  a time to live that the sum \<open>time.time() + ttl\<close> accepts (\<open>storable\<close>): if the key is
  not the oldest one, it is overwritten in place: the oldest key is gone, the other keys
  keep their order, and the store is one entry below its capacity; if the key is the
  oldest one, it moves to the end and the store stays full. For a time to live that the
  sum refuses, the oldest entry is removed all the same, nothing is written and the call
  returns \<open>False\<close>.
\<close>

theorem overwrite_at_capacity_evicts:
  assumes "int (length (cache c)) = max_size c" "key \<in> fst ` set (cache c)"
    "distinct (map fst (cache c))"
  shows "(storable t \<longrightarrow>
       snd (InMemoryCache_cache_data c key v t now) \<and>
       cache (fst (InMemoryCache_cache_data c key v t now))
         = AList.update key (v, now + real_of_int (ttl_seconds t)) (tl (cache c)) \<and>
       (key \<noteq> fst (hd (cache c)) \<longrightarrow>
          fst (hd (cache c)) \<notin> fst ` set (cache (fst (InMemoryCache_cache_data c key v t now))) \<and>
          map fst (cache (fst (InMemoryCache_cache_data c key v t now))) = map fst (tl (cache c)) \<and>
          int (length (cache (fst (InMemoryCache_cache_data c key v t now)))) = max_size c - 1) \<and>
       (key = fst (hd (cache c)) \<longrightarrow>
          cache (fst (InMemoryCache_cache_data c key v t now))
            = tl (cache c) @ [(key, (v, now + real_of_int (ttl_seconds t)))] \<and>
          int (length (cache (fst (InMemoryCache_cache_data c key v t now)))) = max_size c)) \<and>
     (\<not> storable t \<longrightarrow>
       \<not> snd (InMemoryCache_cache_data c key v t now) \<and>
       cache (fst (InMemoryCache_cache_data c key v t now)) = tl (cache c))"
proof -
  let ?e = "(v, now + real_of_int (ttl_seconds t))"
  from assms(2) obtain kv rest where c: "cache c = kv # rest" by (cases "cache c") auto
  have old: "fst kv \<notin> fst ` set rest" using assms(3) c by auto
  have other: "fst kv \<notin> fst ` set (AList.update key ?e rest) \<and>
      map fst (AList.update key ?e rest) = map fst rest \<and>
      int (length (AList.update key ?e rest)) = max_size c - 1" if "key \<noteq> fst kv"
  proof -
    from that assms(2) c have mem: "key \<in> fst ` set rest" by auto
    then have keys: "map fst (AList.update key ?e rest) = map fst rest"
      by (rule update_present_keys)
    then have "length (AList.update key ?e rest) = length rest"
      by (metis length_map)
    with keys old assms(1) c that show ?thesis by (auto simp: dom_update)
  qed
  have same: "AList.update key ?e rest = rest @ [(key, ?e)] \<and>
      int (length (AList.update key ?e rest)) = max_size c" if "key = fst kv"
    using that old assms(1) c by (simp add: update_fresh)
  show ?thesis
  proof (cases "storable t")
    case True
    then have put: "InMemoryCache_cache_data c key v t now = (c\<lparr>cache := AList.update key ?e rest\<rparr>, True)"
      using assms(1) c by (simp add: cache_data_cases)
    from put have c': "cache (fst (InMemoryCache_cache_data c key v t now)) = AList.update key ?e rest"
      and ok: "snd (InMemoryCache_cache_data c key v t now)" by simp_all
    show ?thesis unfolding c' using True ok other same assms(1) by (simp add: c)
  next
    case False
    then have "InMemoryCache_cache_data c key v t now = (c\<lparr>cache := rest\<rparr>, False)"
      using assms(1) c by (simp add: cache_data_cases)
    with False show ?thesis by (simp add: c)
  qed
qed

lemma full_store_cache: "full_store = \<lparr>cache = [(''a'', (PInt 1, 60)), (''b'', (PInt 2, 61))], max_size = 2\<rparr>"
  by (simp add: full_store_def InMemoryCache_init_def cache_data_cases storable_def fits_float_exact)

theorem overwrite_at_capacity_evicts_witness:
  "int (length (cache full_store)) = max_size full_store \<and>
   ''b'' \<in> fst ` set (cache full_store) \<and>
   distinct (map fst (cache full_store)) \<and>
   storable (Seconds 60) \<and>
   ''b'' \<noteq> fst (hd (cache full_store)) \<and>
   snd (InMemoryCache_cache_data full_store ''b'' (PInt 20) (Seconds 60) 5) \<and>
   cache (fst (InMemoryCache_cache_data full_store ''b'' (PInt 20) (Seconds 60) 5))
     = [(''b'', (PInt 20, 65))] \<and>
   int (length (cache (fst (InMemoryCache_cache_data full_store ''b'' (PInt 20) (Seconds 60) 5))))
     = max_size full_store - 1 \<and>
   \<not> storable (Seconds (2 ^ 1024)) \<and>
   InMemoryCache_cache_data full_store ''b'' (PInt 20) (Seconds (2 ^ 1024)) 5
     = (\<lparr>cache = [(''b'', (PInt 2, 61))], max_size = 2\<rparr>, False)"
  using overwrite_at_capacity_evicts [of full_store "''b''" "Seconds 60" "PInt 20" 5]
    overwrite_at_capacity_evicts [of full_store "''b''" "Seconds (2 ^ 1024)" "PInt 20" 5]
    not_fits_float_huge
  by (simp add: full_store_cache storable_def fits_float_exact cache_data_cases)

section \<open>Properties of the decorator\<close>

lemma cache_of_distinct: "distinct (map fst (cache (cache_of s)))"
  using cache_of [of s] by simp

lemma cache_of_live: "distinct (map fst (cache c)) \<Longrightarrow> cache_of (live c) = c"
  by (simp add: live_inverse)

lemma distinct_get:
  "distinct (map fst (cache c)) \<Longrightarrow>
   distinct (map fst (cache (fst (InMemoryCache_get_cached_data c key dflt now))))"
  by (auto simp: InMemoryCache_get_cached_data_def distinct_delete split: option.splits)

lemma distinct_cache_data:
  assumes "distinct (map fst (cache c))"
  shows "distinct (map fst (cache (fst (InMemoryCache_cache_data c key data t now))))"
proof -
  from assms have "distinct (map fst (tl (cache c)))" by (cases "cache c") simp_all
  with assms show ?thesis by (simp add: cache_data_cases distinct_update)
qed

lemma map_of_tl:
  assumes "distinct (map fst al)" "al \<noteq> []"
  shows "map_of (tl al) k = (if k = fst (hd al) then None else map_of al k)"
proof -
  from assms(2) obtain kv rest where al: "al = kv # rest" by (cases al) auto
  with assms(1) have "fst kv \<notin> fst ` set rest" by auto
  then have "map_of rest (fst kv) = None" by (simp add: map_of_eq_None_iff)
  with al show ?thesis by (cases kv) auto
qed

lemma get_none_entry:
  assumes "map_of (cache c) key = None \<or> (\<exists>e. map_of (cache c) key = Some (PNone, e))"
  shows "snd (InMemoryCache_get_cached_data c key PNone now) = PNone"
  using assms by (auto simp: InMemoryCache_get_cached_data_def)

lemma none_read_entry:
  assumes "snd (InMemoryCache_get_cached_data c key PNone now) = PNone"
  shows "map_of (cache (fst (InMemoryCache_get_cached_data c key PNone now))) key = None \<or>
     (\<exists>e. map_of (cache (fst (InMemoryCache_get_cached_data c key PNone now))) key = Some (PNone, e))"
  using assms
  by (auto simp: InMemoryCache_get_cached_data_def delete_conv' split: option.splits if_splits)

lemma InMemoryCache_none_stays_none:
  assumes "distinct (map fst (cache c))"
    "map_of (cache c) key = None \<or> (\<exists>e. map_of (cache c) key = Some (PNone, e))"
  shows "snd (InMemoryCache_get_cached_data
          (fst (InMemoryCache_cache_data c key PNone t t_put)) key PNone t') = PNone"
proof (rule get_none_entry)
  let ?c2 = "fst (InMemoryCache_cache_data c key PNone t t_put)"
  show "map_of (cache ?c2) key = None \<or> (\<exists>e. map_of (cache ?c2) key = Some (PNone, e))"
  proof (cases "cache c = []")
    case True
    then show ?thesis by (simp add: cache_data_cases)
  next
    case False
    from map_of_tl [OF assms(1) False, of key] assms(2)
    have "map_of (tl (cache c)) key = None \<or> (\<exists>e. map_of (tl (cache c)) key = Some (PNone, e))"
      by auto
    with assms(2) False show ?thesis by (auto simp: cache_data_cases update_conv')
  qed
qed

lemma RedisCache_none_stays_none:
  assumes "RedisCache_get_cached_data srv key PNone t_get = Inr PNone" "t_get \<le> t'"
  shows "\<exists>srv2 ok. RedisCache_cache_data srv key PNone t t_put = Inr (srv2, ok) \<and>
           RedisCache_get_cached_data srv2 key PNone t' = Inr PNone"
proof (cases "reachable srv \<and> 0 < ttl_seconds t \<and> accepts srv (ttl_seconds t) (Doc JNull)")
  case True
  then have "RedisCache_cache_data srv key PNone t t_put =
      Inr (srv\<lparr>db := (db srv)(key \<mapsto> (Doc JNull, t_put + real_of_int (ttl_seconds t)))\<rparr>, True)"
    by (simp add: RedisCache_cache_data_def redis_setex_def)
  moreover have "RedisCache_get_cached_data
      (srv\<lparr>db := (db srv)(key \<mapsto> (Doc JNull, t_put + real_of_int (ttl_seconds t)))\<rparr>) key PNone t'
      = Inr PNone"
    by (simp add: RedisCache_get_cached_data_def redis_get_def redis_lookup_def
        except_redis_json_def)
  ultimately show ?thesis by blast
next
  case False
  then have put: "RedisCache_cache_data srv key PNone t t_put = Inr (srv, False)"
    by (auto simp: RedisCache_cache_data_def redis_setex_def except_redis_json_def Let_def)
  have "RedisCache_get_cached_data srv key PNone t' = Inr PNone"
  proof (cases "redis_get srv key t'")
    case (Inl e)
    then show ?thesis
      by (auto simp: RedisCache_get_cached_data_def redis_get_def except_redis_json_def
          split: if_splits)
  next
    case (Inr r)
    show ?thesis
    proof (cases r)
      case None
      with Inr show ?thesis by (simp add: RedisCache_get_cached_data_def)
    next
      case (Some s)
      with Inr have "redis_get srv key t_get = Inr (Some s)"
        using assms(2)
        by (auto simp: redis_get_def redis_lookup_def split: if_splits option.splits)
      with assms(1) Inr Some show ?thesis
        by (simp add: RedisCache_get_cached_data_def)
    qed
  qed
  with put show ?thesis by blast
qed

lemma none_stays_none:
  assumes "fst (get_cached_data store key PNone t_get) = Inr PNone" "t_get \<le> t'"
  shows "\<exists>ok store2. cache_data (snd (get_cached_data store key PNone t_get)) key PNone t t_put
             = (Inr ok, store2) \<and>
           fst (get_cached_data store2 key PNone t') = Inr PNone"
proof (cases store)
  case (InMemory s)
  let ?c1 = "fst (InMemoryCache_get_cached_data (cache_of s) key PNone t_get)"
  let ?c2 = "fst (InMemoryCache_cache_data ?c1 key PNone t t_put)"
  from assms(1) InMemory have read: "snd (InMemoryCache_get_cached_data (cache_of s) key PNone t_get) = PNone"
    by (simp add: split_beta)
  have d1: "distinct (map fst (cache ?c1))" by (rule distinct_get) (rule cache_of_distinct)
  then have d2: "distinct (map fst (cache ?c2))" by (rule distinct_cache_data)
  from InMemoryCache_none_stays_none [OF d1 none_read_entry [OF read], of t t_put t']
  have "snd (InMemoryCache_get_cached_data ?c2 key PNone t') = PNone" .
  with InMemory d1 d2 show ?thesis
    by (simp add: split_beta cache_of_live)
next
  case (Redis srv)
  with assms(1) have "RedisCache_get_cached_data srv key PNone t_get = Inr PNone" by simp
  from RedisCache_none_stays_none [OF this assms(2), of t t_put] Redis
  show ?thesis by auto
qed

lemma cache_data_raises_TypeError:
  "fst (cache_data store key data t now) = Inl e \<Longrightarrow> e = TypeError"
  by (cases store)
     (auto simp: split_beta RedisCache_cache_data_def except_redis_json_def redis_setex_def Let_def
       split: sum.splits if_splits dest: json_dumps_error(1))

lemma cache_response_hit:
  assumes "fst (get_cached_data store (cache_key name h) PNone t_get) = Inr cached" "cached \<noteq> PNone"
  shows "cache_response t name func (Some store) h t_get t_put w =
     (Inr cached, Some (snd (get_cached_data store (cache_key name h) PNone t_get)), w)"
  using assms
  by (cases "get_cached_data store (cache_key name h) PNone t_get")
     (simp add: cache_response_def)

lemma cache_response_miss:
  assumes "fst (get_cached_data store (cache_key name h) PNone t_get) = Inr PNone"
  shows "cache_response t name func (Some store) h t_get t_put w =
     (case cache_data (snd (get_cached_data store (cache_key name h) PNone t_get))
             (cache_key name h) (fst (func w)) t t_put of
        (Inl e, store2) \<Rightarrow> (Inl e, Some store2, snd (func w))
      | (Inr ok, store2) \<Rightarrow> (Inr (fst (func w)), Some store2, snd (func w)))"
  using assms
  by (cases "get_cached_data store (cache_key name h) PNone t_get")
     (simp add: cache_response_def split_beta)

lemma cache_response_miss_result:
  assumes "fst (get_cached_data store (cache_key name h) PNone t_get) = Inr PNone"
  shows "snd (snd (cache_response t name func (Some store) h t_get t_put w)) = snd (func w) \<and>
     (fst (cache_response t name func (Some store) h t_get t_put w) = Inr (fst (func w)) \<or>
      fst (cache_response t name func (Some store) h t_get t_put w) = Inl TypeError)"
proof -
  let ?put = "cache_data (snd (get_cached_data store (cache_key name h) PNone t_get))
             (cache_key name h) (fst (func w)) t t_put"
  show ?thesis
  proof (cases "fst ?put")
    case (Inl e)
    then have "e = TypeError" by (rule cache_data_raises_TypeError)
    with Inl show ?thesis
      by (simp add: cache_response_miss [OF assms] split_beta)
  next
    case (Inr ok)
    then show ?thesis
      by (simp add: cache_response_miss [OF assms] split_beta)
  qed
qed

lemma cache_response_none_again:
  assumes "fst (get_cached_data store (cache_key name h) PNone t_get) = Inr PNone"
    "fst (func w) = PNone" "t_get \<le> t_get'"
  shows "case cache_response t name func (Some store) h t_get t_put w of
         (r1, dc1, w1) \<Rightarrow>
           r1 = Inr PNone \<and> w1 = snd (func w) \<and>
           (case cache_response t name func dc1 h t_get' t_put' w1 of
              (r2, dc2, w2) \<Rightarrow>
                w2 = snd (func w1) \<and> (r2 = Inr (fst (func w1)) \<or> r2 = Inl TypeError))"
proof -
  from none_stays_none [OF assms(1,3), of t t_put] obtain ok store2 where
    put: "cache_data (snd (get_cached_data store (cache_key name h) PNone t_get))
            (cache_key name h) PNone t t_put = (Inr ok, store2)"
    and get2: "fst (get_cached_data store2 (cache_key name h) PNone t_get') = Inr PNone"
    by blast
  have first: "cache_response t name func (Some store) h t_get t_put w =
      (Inr PNone, Some store2, snd (func w))"
    by (simp add: cache_response_miss [OF assms(1)] assms(2) put)
  from cache_response_miss_result [OF get2, of t func t_put' "snd (func w)"]
  show ?thesis by (simp add: first split_beta)
qed

text \<open>
  Claim C10. The wrapper of \<open>cache_response\<close> reads the store with the default \<open>None\<close>:
  \<^item> a value other than \<open>None\<close> is returned and the computation is not called (its
    state \<open>w\<close> is unchanged);
  \<^item> when the read gives \<open>None\<close>, the computation is called, and the call returns its
    result (or raises the \<open>TypeError\<close> of a write to the networked store);
  \<^item> after a call in which the computation returned \<open>None\<close>, a later call (at a read
    time not before the first) calls the computation again and returns its new result,
    never the stored \<open>None\<close>.
\<close>

theorem cache_response_none_is_miss:
  "(fst (get_cached_data store' (cache_key name h) PNone t_get) = Inr cached \<and> cached \<noteq> PNone \<longrightarrow>
      cache_response t name func (Some store') h t_get t_put w =
        (Inr cached, Some (snd (get_cached_data store' (cache_key name h) PNone t_get)), w)) \<and>
   (fst (get_cached_data store (cache_key name h) PNone t_get) = Inr PNone \<longrightarrow>
      snd (snd (cache_response t name func (Some store) h t_get t_put w)) = snd (func w) \<and>
      (fst (cache_response t name func (Some store) h t_get t_put w) = Inr (fst (func w)) \<or>
       fst (cache_response t name func (Some store) h t_get t_put w) = Inl TypeError)) \<and>
   (fst (get_cached_data store (cache_key name h) PNone t_get) = Inr PNone \<and>
    fst (func w) = PNone \<and> t_get \<le> t_get' \<longrightarrow>
      (case cache_response t name func (Some store) h t_get t_put w of
         (r1, dc1, w1) \<Rightarrow>
           r1 = Inr PNone \<and> w1 = snd (func w) \<and>
           (case cache_response t name func dc1 h t_get' t_put' w1 of
              (r2, dc2, w2) \<Rightarrow>
                w2 = snd (func w1) \<and> (r2 = Inr (fst (func w1)) \<or> r2 = Inl TypeError))))"
proof (intro conjI impI)
  assume "fst (get_cached_data store' (cache_key name h) PNone t_get) = Inr cached \<and> cached \<noteq> PNone"
  then show "cache_response t name func (Some store') h t_get t_put w =
        (Inr cached, Some (snd (get_cached_data store' (cache_key name h) PNone t_get)), w)"
    by (simp add: cache_response_hit)
next
  assume miss: "fst (get_cached_data store (cache_key name h) PNone t_get) = Inr PNone"
  from cache_response_miss_result [OF miss, of t func t_put w]
  show "snd (snd (cache_response t name func (Some store) h t_get t_put w)) = snd (func w)"
    by simp
  from cache_response_miss_result [OF miss, of t func t_put w]
  show "fst (cache_response t name func (Some store) h t_get t_put w) = Inr (fst (func w)) \<or>
       fst (cache_response t name func (Some store) h t_get t_put w) = Inl TypeError"
    by simp
next
  assume "fst (get_cached_data store (cache_key name h) PNone t_get) = Inr PNone \<and>
    fst (func w) = PNone \<and> t_get \<le> t_get'"
  then have a: "fst (get_cached_data store (cache_key name h) PNone t_get) = Inr PNone"
    and b: "fst (func w) = PNone" and c: "t_get \<le> t_get'" by simp_all
  from a b c show "case cache_response t name func (Some store) h t_get t_put w of
         (r1, dc1, w1) \<Rightarrow>
           r1 = Inr PNone \<and> w1 = snd (func w) \<and>
           (case cache_response t name func dc1 h t_get' t_put' w1 of
              (r2, dc2, w2) \<Rightarrow>
                w2 = snd (func w1) \<and> (r2 = Inr (fst (func w1)) \<or> r2 = Inl TypeError))"
    by (rule cache_response_none_again)
qed

lemma warm_store_get:
  "get_cached_data warm_store (cache_key ''get_data'' ''42'') PNone 10 = (Inr (PStr ''expensive''), warm_store)"
  by (simp add: warm_store_def InMemoryCache_init_def cache_data_cases cache_key_def
      InMemoryCache_get_cached_data_def storable_def fits_float_exact cache_of_live)

lemma cold_store_get:
  "get_cached_data cold_store (cache_key ''get_data'' ''42'') PNone 10 = (Inr PNone, cold_store)"
  by (simp add: cold_store_def InMemoryCache_init_def cache_key_def
      InMemoryCache_get_cached_data_def cache_of_live)

theorem cache_response_none_is_miss_witness:
  "fst (get_cached_data warm_store (cache_key ''get_data'' ''42'') PNone 10) = Inr (PStr ''expensive'') \<and>
   PStr ''expensive'' \<noteq> PNone \<and>
   cache_response (Seconds 300) ''get_data'' none_func (Some warm_store) ''42'' 10 11 0
     = (Inr (PStr ''expensive''), Some warm_store, 0) \<and>
   fst (get_cached_data cold_store (cache_key ''get_data'' ''42'') PNone 10) = Inr PNone \<and>
   fst (none_func 0) = PNone \<and> (10::real) \<le> 20 \<and>
   fst (cache_response (Seconds 300) ''get_data'' none_func (Some cold_store) ''42'' 10 11 0)
     = Inr PNone \<and>
   snd (snd (cache_response (Seconds 300) ''get_data'' none_func (Some cold_store) ''42'' 10 11 0))
     = 1 \<and>
   (case cache_response (Seconds 300) ''get_data'' none_func (Some cold_store) ''42'' 10 11 0 of
      (r1, dc1, w1) \<Rightarrow>
        (case cache_response (Seconds 300) ''get_data'' none_func dc1 ''42'' 20 21 w1 of
           (r2, dc2, w2) \<Rightarrow> r2 = Inr PNone \<and> w2 = 2))"
  using cache_response_none_is_miss [of warm_store "''get_data''" "''42''" 10 "PStr ''expensive''"
      "Seconds 300" none_func 11 0 cold_store 20 21]
  by (simp add: cache_response_def warm_store_def cold_store_def none_func_def cache_key_def
      InMemoryCache_init_def cache_data_cases InMemoryCache_get_cached_data_def
      storable_def fits_float_exact cache_of_live)

section \<open>Properties of the rotation manager\<close>

subsection \<open>The recheck loop and the draw\<close>

lemma recheck_loop_inv:
  assumes "distinct ps" "set ps \<subseteq> set (unhealthy_proxies st)"
  shows "\<exists>st' w'. recheck_loop E ct ps st w = Inr (st', w') \<and>
     proxies st' = proxies st \<and> user_agents st' = user_agents st \<and>
     use_fake_ua st' = use_fake_ua st \<and> check_proxy_health st' = check_proxy_health st \<and>
     set (healthy_proxies st') \<union> set (unhealthy_proxies st') =
       set (healthy_proxies st) \<union> set (unhealthy_proxies st) \<and>
     set (healthy_proxies st') \<inter> set (unhealthy_proxies st') \<subseteq>
       set (healthy_proxies st) \<inter> set (unhealthy_proxies st) \<and>
     set (unhealthy_proxies st') \<subseteq> set (unhealthy_proxies st)"
  using assms
proof (induction ps arbitrary: st w)
  case Nil
  then show ?case by simp
next
  case (Cons p ps)
  from Cons.prems have p: "p \<in> set (unhealthy_proxies st)" and fresh: "p \<notin> set ps"
    and d: "distinct ps" and sub: "set ps \<subseteq> set (unhealthy_proxies st)" by auto
  show ?case
  proof (cases "recheck_due st ct p")
    case False
    with Cons.IH [OF d sub, of w] show ?thesis by simp
  next
    case True
    obtain ok w1 where probe: "probe_proxy_health E w p = (ok, w1)" by (cases "probe_proxy_health E w p")
    show ?thesis
    proof (cases ok)
      case False
      let ?st1 = "st\<lparr>proxy_health_checks := (proxy_health_checks st)(p \<mapsto> ct)\<rparr>"
      from sub have "set ps \<subseteq> set (unhealthy_proxies ?st1)" by simp
      from Cons.IH [OF d this, of w1] True probe False show ?thesis by simp
    next
      case ok: True
      let ?st1 = "st\<lparr>unhealthy_proxies := removeAll p (unhealthy_proxies st),
                       healthy_proxies := List.insert p (healthy_proxies st),
                       proxy_health_checks := (proxy_health_checks st)(p \<mapsto> ct)\<rparr>"
      from sub fresh have "set ps \<subseteq> set (unhealthy_proxies ?st1)" by auto
      from Cons.IH [OF d this, of w1] obtain st' w' where
        loop: "recheck_loop E ct ps ?st1 w1 = Inr (st', w')"
        and rest: "proxies st' = proxies ?st1" "user_agents st' = user_agents ?st1"
          "use_fake_ua st' = use_fake_ua ?st1" "check_proxy_health st' = check_proxy_health ?st1"
          "set (healthy_proxies st') \<union> set (unhealthy_proxies st') =
             set (healthy_proxies ?st1) \<union> set (unhealthy_proxies ?st1)"
          "set (healthy_proxies st') \<inter> set (unhealthy_proxies st') \<subseteq>
             set (healthy_proxies ?st1) \<inter> set (unhealthy_proxies ?st1)"
          "set (unhealthy_proxies st') \<subseteq> set (unhealthy_proxies ?st1)"
        by blast
      have run: "recheck_loop E ct (p # ps) st w = Inr (st', w')"
        using True probe ok p loop by (simp add: set_remove_def)
      from rest p have
        "proxies st' = proxies st" "user_agents st' = user_agents st"
        "use_fake_ua st' = use_fake_ua st" "check_proxy_health st' = check_proxy_health st"
        "set (healthy_proxies st') \<union> set (unhealthy_proxies st') =
           set (healthy_proxies st) \<union> set (unhealthy_proxies st)"
        "set (healthy_proxies st') \<inter> set (unhealthy_proxies st') \<subseteq>
           set (healthy_proxies st) \<inter> set (unhealthy_proxies st)"
        "set (unhealthy_proxies st') \<subseteq> set (unhealthy_proxies st)"
        by auto
      with run show ?thesis by blast
    qed
  qed
qed

lemma recheck_loop_idle:
  "\<forall>p \<in> set ps. \<not> recheck_due st ct p \<Longrightarrow> recheck_loop E ct ps st w = Inr (st, w)"
  by (induction ps) auto

lemma recheck_loop_failing:
  assumes "\<forall>w p. \<not> fst (probe_proxy_health E w p)"
  shows "\<exists>st' w'. recheck_loop E ct ps st w = Inr (st', w') \<and>
     healthy_proxies st' = healthy_proxies st \<and> unhealthy_proxies st' = unhealthy_proxies st \<and>
     proxies st' = proxies st"
proof (induction ps arbitrary: st w)
  case Nil
  then show ?case by simp
next
  case (Cons p ps)
  obtain ok w1 where probe: "probe_proxy_health E w p = (ok, w1)" by (cases "probe_proxy_health E w p")
  with assms have "\<not> ok" by (metis fst_conv)
  with probe Cons.IH [of st w]
    Cons.IH [of "st\<lparr>proxy_health_checks := (proxy_health_checks st)(p \<mapsto> ct)\<rparr>" w1]
  show ?case by auto
qed

lemma get_random_proxy_result:
  "\<exists>st' w' outs. get_random_proxy E st w = Inr (st', w', outs) \<and> outs \<noteq> [] \<and>
     proxies st' = proxies st \<and> user_agents st' = user_agents st \<and>
     use_fake_ua st' = use_fake_ua st \<and> check_proxy_health st' = check_proxy_health st \<and>
     set (healthy_proxies st') \<union> set (unhealthy_proxies st') =
       set (healthy_proxies st) \<union> set (unhealthy_proxies st) \<and>
     set (healthy_proxies st') \<inter> set (unhealthy_proxies st') \<subseteq>
       set (healthy_proxies st) \<inter> set (unhealthy_proxies st) \<and>
     (proxies st = [] \<longrightarrow> st' = st \<and> w' = w \<and> outs = [None]) \<and>
     (proxies st \<noteq> [] \<and> healthy_proxies st' \<noteq> [] \<longrightarrow>
        outs = map (\<lambda>proxy. Some (proxy_dict proxy)) (remdups (healthy_proxies st'))) \<and>
     (proxies st \<noteq> [] \<and> healthy_proxies st' = [] \<longrightarrow>
        outs = map (\<lambda>proxy. Some (proxy_dict proxy)) (proxies st))"
proof (cases "proxies st = []")
  case True
  then show ?thesis by (simp add: get_random_proxy_def)
next
  case False
  have "distinct (remdups (unhealthy_proxies st))"
    and "set (remdups (unhealthy_proxies st)) \<subseteq> set (unhealthy_proxies st)" by simp_all
  from recheck_loop_inv [OF this, of E "clock E w" w] obtain st' w' where
    loop: "recheck_loop E (clock E w) (remdups (unhealthy_proxies st)) st w = Inr (st', w')"
    and inv: "proxies st' = proxies st" "user_agents st' = user_agents st"
      "use_fake_ua st' = use_fake_ua st" "check_proxy_health st' = check_proxy_health st"
      "set (healthy_proxies st') \<union> set (unhealthy_proxies st') =
         set (healthy_proxies st) \<union> set (unhealthy_proxies st)"
      "set (healthy_proxies st') \<inter> set (unhealthy_proxies st') \<subseteq>
         set (healthy_proxies st) \<inter> set (unhealthy_proxies st)"
    by blast
  show ?thesis
  proof (cases "healthy_proxies st' = []")
    case True
    with False loop inv(1) have
      "get_random_proxy E st w = Inr (st', w', map (\<lambda>proxy. Some (proxy_dict proxy)) (proxies st))"
      by (simp add: get_random_proxy_def random_choice_def)
    with True False inv show ?thesis by simp
  next
    case healthy: False
    then have "remdups (healthy_proxies st') \<noteq> []" by simp
    with healthy False loop have
      "get_random_proxy E st w =
         Inr (st', w', map (\<lambda>proxy. Some (proxy_dict proxy)) (remdups (healthy_proxies st')))"
      by (simp add: get_random_proxy_def random_choice_def)
    with healthy False inv show ?thesis by simp
  qed
qed

lemma get_random_proxy_idle:
  assumes "proxies st \<noteq> []" "healthy_proxies st \<noteq> []"
    "\<forall>p \<in> set (unhealthy_proxies st). \<not> recheck_due st (clock E w) p"
  shows "get_random_proxy E st w =
     Inr (st, w, map (\<lambda>proxy. Some (proxy_dict proxy)) (remdups (healthy_proxies st)))"
proof -
  from assms(3) have "\<forall>p \<in> set (remdups (unhealthy_proxies st)). \<not> recheck_due st (clock E w) p"
    by simp
  from recheck_loop_idle [OF this]
  have "recheck_loop E (clock E w) (remdups (unhealthy_proxies st)) st w = Inr (st, w)" .
  with assms(1,2) show ?thesis
    by (simp add: get_random_proxy_def random_choice_def)
qed

lemma get_random_proxy_failing:
  assumes "\<forall>w p. \<not> fst (probe_proxy_health E w p)"
  shows "\<exists>st' w' outs. get_random_proxy E st w = Inr (st', w', outs) \<and>
     healthy_proxies st' = healthy_proxies st \<and> unhealthy_proxies st' = unhealthy_proxies st"
proof (cases "proxies st = []")
  case True
  then show ?thesis by (simp add: get_random_proxy_def)
next
  case False
  from recheck_loop_failing [OF assms, where ct = "clock E w"
      and ps = "remdups (unhealthy_proxies st)" and st = st and w = w]
  obtain st' w' where
    "recheck_loop E (clock E w) (remdups (unhealthy_proxies st)) st w = Inr (st', w')"
    "healthy_proxies st' = healthy_proxies st" "unhealthy_proxies st' = unhealthy_proxies st"
    "proxies st' = proxies st"
    by blast
  with False show ?thesis
    by (auto simp: get_random_proxy_def random_choice_def)
qed

lemma remdups_singleton: "set xs = {h} \<Longrightarrow> remdups xs = [h]"
proof (induction xs)
  case Nil
  then show ?case by simp
next
  case (Cons x xs)
  then have x: "x = h" and sub: "set xs \<subseteq> {h}" by auto
  show ?case
  proof (cases "xs = []")
    case True
    with x show ?thesis by simp
  next
    case False
    with sub have "set xs = {h}" by (cases xs) auto
    with Cons.IH x show ?thesis by simp
  qed
qed

lemma proxy_calls_idle:
  assumes "proxies st \<noteq> []" "healthy_proxies st \<noteq> []"
    "\<forall>w \<in> set ws. \<forall>p \<in> set (unhealthy_proxies st). \<not> recheck_due st (clock E w) p"
  shows "proxy_calls E st ws =
     Inr (st, replicate (length ws)
                (map (\<lambda>proxy. Some (proxy_dict proxy)) (remdups (healthy_proxies st))))"
  using assms(3)
proof (induction ws)
  case Nil
  then show ?case by simp
next
  case (Cons w ws)
  then have "\<forall>p \<in> set (unhealthy_proxies st). \<not> recheck_due st (clock E w) p" by simp
  from get_random_proxy_idle [OF assms(1,2) this] Cons show ?case by simp
qed

lemma get_random_user_agent_result:
  assumes "use_fake_ua st \<or> user_agents st \<noteq> []"
  shows "get_random_user_agent E st w =
           Inr (if use_fake_ua st then [fake_useragent E w] else user_agents st) \<and>
         (if use_fake_ua st then [fake_useragent E w] else user_agents st) \<noteq> []"
  using assms by (auto simp: get_random_user_agent_def random_choice_def)

lemma get_request_metadata_idle:
  assumes "proxies st \<noteq> []" "healthy_proxies st \<noteq> []"
    "\<forall>p \<in> set (unhealthy_proxies st). \<not> recheck_due st (clock E w) p"
    "use_fake_ua st \<or> user_agents st \<noteq> []"
  shows "\<exists>outs. get_request_metadata E st w = Inr (st, w, outs) \<and> outs \<noteq> [] \<and>
     (\<forall>m \<in> set outs. meta_proxies m \<in> (\<lambda>proxy. Some (proxy_dict proxy)) ` set (healthy_proxies st))"
proof -
  from get_random_user_agent_result [OF assms(4), of E w]
  obtain uas where uas: "get_random_user_agent E st w = Inr uas" "uas \<noteq> []"
    by blast
  from assms(2) have "remdups (healthy_proxies st) \<noteq> []" by simp
  with uas show ?thesis
    by (cases uas) (auto simp: get_request_metadata_def get_random_proxy_idle [OF assms(1,2,3)])
qed

subsection \<open>Healthy addresses first\<close>

text \<open>
  Claim C5. When an address of the pool is healthy and, at each call, no unhealthy
  address is due for a recheck (each has a last check that is at most 30 minutes old),
  every call of \<open>get_random_proxy\<close> leaves the manager as it is and draws from the
  healthy set only; with exactly one healthy address \<open>h\<close> every call returns \<open>h\<close>, for
  any number of calls. \<open>get_request_metadata\<close> passes the same draw on.
\<close>

theorem healthy_only_when_no_recheck_due:
  assumes "set (proxies st) \<inter> set (healthy_proxies st) \<noteq> {}"
    "\<forall>w \<in> set ws. \<forall>p \<in> set (unhealthy_proxies st). \<not> recheck_due st (clock E w) p"
  shows "proxy_calls E st ws =
       Inr (st, replicate (length ws)
                  (map (\<lambda>proxy. Some (proxy_dict proxy)) (remdups (healthy_proxies st)))) \<and>
     (set (healthy_proxies st) = {h} \<longrightarrow>
        proxy_calls E st ws = Inr (st, replicate (length ws) [Some (proxy_dict h)])) \<and>
     (use_fake_ua st \<or> user_agents st \<noteq> [] \<longrightarrow>
        (\<forall>w \<in> set ws. \<exists>outs. get_request_metadata E st w = Inr (st, w, outs) \<and> outs \<noteq> [] \<and>
           (\<forall>m \<in> set outs.
              meta_proxies m \<in> (\<lambda>proxy. Some (proxy_dict proxy)) ` set (healthy_proxies st))))"
proof -
  from assms(1) have pool: "proxies st \<noteq> []" and healthy: "healthy_proxies st \<noteq> []" by auto
  note calls = proxy_calls_idle [OF pool healthy assms(2)]
  have "proxy_calls E st ws = Inr (st, replicate (length ws) [Some (proxy_dict h)])"
    if "set (healthy_proxies st) = {h}"
    using calls by (simp add: remdups_singleton [OF that])
  moreover have "\<exists>outs. get_request_metadata E st w = Inr (st, w, outs) \<and> outs \<noteq> [] \<and>
           (\<forall>m \<in> set outs.
              meta_proxies m \<in> (\<lambda>proxy. Some (proxy_dict proxy)) ` set (healthy_proxies st))"
    if "use_fake_ua st \<or> user_agents st \<noteq> []" "w \<in> set ws" for w
    using get_request_metadata_idle [OF pool healthy _ that(1), of E w] assms(2) that(2) by blast
  ultimately show ?thesis using calls by blast
qed

lemma one_healthy_reached:
  "(case ProxyManager_init lab_env (Some [''http://p1:8080'', ''http://p2:8080'']) None True False 0 of
      (st, w) \<Rightarrow> get_random_proxy lab_env st 100)
   = Inr (one_healthy, 101, [Some (proxy_dict ''http://p1:8080'')])"
  by (simp add: ProxyManager_init_def check_all_proxies_def probe_proxy_health_def lab_env_def
      get_random_proxy_def recheck_due_def random_choice_def one_healthy_def Let_def)

theorem healthy_only_when_no_recheck_due_witness:
  "set (proxies one_healthy) \<inter> set (healthy_proxies one_healthy) \<noteq> {} \<and>
   unhealthy_proxies one_healthy = [''http://p2:8080''] \<and>
   \<not> recheck_due one_healthy (clock lab_env 1800000100) ''http://p2:8080'' \<and>
   set (healthy_proxies one_healthy) = {''http://p1:8080''} \<and>
   proxy_calls lab_env one_healthy (replicate 1000 1800000100) =
     Inr (one_healthy,
          replicate 1000 [Some [(''http'', ''http://p1:8080''), (''https'', ''http://p1:8080'')]])"
  using healthy_only_when_no_recheck_due [of one_healthy "replicate 1000 1800000100" lab_env
      "''http://p1:8080''"]
  by (simp add: one_healthy_def recheck_due_def recheck_interval_def lab_env_def proxy_dict_def)

subsection \<open>Degrading instead of failing\<close>

lemma check_all_loop_user_agents:
  "user_agents (fst (check_all_loop E ps st w)) = user_agents st"
  by (induction ps arbitrary: st w) (auto split: prod.splits bool.splits)

lemma init_user_agents:
  "user_agents (fst (ProxyManager_init E proxies_arg user_agents_arg check fake_ua_ok w)) \<noteq> []"
  by (auto simp: ProxyManager_init_def check_all_proxies_def check_all_loop_user_agents
      fallback_user_agents_def Let_def split: option.splits list.splits)

text \<open>
  Claim C6. \<open>get_request_metadata\<close> does not raise (for a manager whose list of user
  agents can be drawn from, as every manager that \<open>__init__\<close> builds, see
  \<open>init_user_agents\<close>): it returns bundles with the fixed headers; on an empty pool
  every bundle has no proxy; on a non-empty pool with no healthy address after the
  recheck, the proxy is drawn from the positions of the whole pool, each with the same
  probability; and when no address is healthy and every probe fails, no address becomes
  healthy.
\<close>

theorem get_request_metadata_never_fails:
  assumes "use_fake_ua st \<or> user_agents st \<noteq> []"
  shows "\<exists>st' w' outs. get_request_metadata E st w = Inr (st', w', outs) \<and> outs \<noteq> [] \<and>
      (\<forall>m \<in> set outs. meta_headers m \<noteq> [] \<and> (\<exists>ua. meta_headers m = request_headers ua)) \<and>
      (proxies st = [] \<longrightarrow> st' = st \<and> (\<forall>m \<in> set outs. meta_proxies m = None)) \<and>
      (proxies st \<noteq> [] \<and> healthy_proxies st' = [] \<longrightarrow>
         outs = concat (map (\<lambda>ua. map (\<lambda>proxy. \<lparr>meta_headers = request_headers ua,
                                                 meta_proxies = Some (proxy_dict proxy)\<rparr>)
                                      (proxies st))
                            (if use_fake_ua st then [fake_useragent E w] else user_agents st))) \<and>
      (healthy_proxies st = [] \<and> (\<forall>w p. \<not> fst (probe_proxy_health E w p)) \<longrightarrow>
         healthy_proxies st' = [] \<and> unhealthy_proxies st' = unhealthy_proxies st)"
proof -
  let ?uas = "if use_fake_ua st then [fake_useragent E w] else user_agents st"
  from get_random_user_agent_result [OF assms, of E w]
  have ua: "get_random_user_agent E st w = Inr ?uas" and ne: "?uas \<noteq> []" by simp_all
  from get_random_proxy_result [of E st w] obtain st' w' ps where
    proxy: "get_random_proxy E st w = Inr (st', w', ps)" and ps: "ps \<noteq> []"
    and empty: "proxies st = [] \<longrightarrow> st' = st \<and> w' = w \<and> ps = [None]"
    and degraded: "proxies st \<noteq> [] \<and> healthy_proxies st' = [] \<longrightarrow>
        ps = map (\<lambda>proxy. Some (proxy_dict proxy)) (proxies st)"
    by blast
  let ?outs = "concat (map (\<lambda>ua. map (\<lambda>p. \<lparr>meta_headers = request_headers ua, meta_proxies = p\<rparr>) ps) ?uas)"
  have run: "get_request_metadata E st w = Inr (st', w', ?outs)"
    by (simp add: get_request_metadata_def ua proxy)
  have outs: "?outs \<noteq> []"
    using ne ps by (cases ?uas; cases ps) auto
  have headers: "\<forall>m \<in> set ?outs. meta_headers m \<noteq> [] \<and> (\<exists>ua. meta_headers m = request_headers ua)"
    by (auto simp: request_headers_def)
  have none: "st' = st \<and> (\<forall>m \<in> set ?outs. meta_proxies m = None)" if "proxies st = []"
    using empty that by auto
  have pool: "?outs = concat (map (\<lambda>ua. map (\<lambda>proxy. \<lparr>meta_headers = request_headers ua,
                                                 meta_proxies = Some (proxy_dict proxy)\<rparr>)
                                      (proxies st)) ?uas)"
    if "proxies st \<noteq> [] \<and> healthy_proxies st' = []"
    using degraded that by (simp add: comp_def)
  have failing: "healthy_proxies st' = [] \<and> unhealthy_proxies st' = unhealthy_proxies st"
    if "healthy_proxies st = [] \<and> (\<forall>w p. \<not> fst (probe_proxy_health E w p))"
    using get_random_proxy_failing [of E st w] proxy that by auto
  from run outs headers none pool failing show ?thesis by blast
qed

lemma dead_pool_state:
  "dead_pool = \<lparr>proxies = [''http://p1:8080''], healthy_proxies = [],
      unhealthy_proxies = [''http://p1:8080''], proxy_health_checks = Map.empty,
      check_proxy_health = True, use_fake_ua = False, user_agents = fallback_user_agents\<rparr>"
  by (simp add: dead_pool_def ProxyManager_init_def check_all_proxies_def probe_proxy_health_def
      dead_env_def Let_def)

lemma empty_pool_state:
  "empty_pool = \<lparr>proxies = [], healthy_proxies = [],
      unhealthy_proxies = [], proxy_health_checks = Map.empty,
      check_proxy_health = True, use_fake_ua = False, user_agents = fallback_user_agents\<rparr>"
  by (simp add: empty_pool_def ProxyManager_init_def Let_def)

theorem get_request_metadata_never_fails_witness:
  "\<not> use_fake_ua dead_pool \<and> user_agents dead_pool \<noteq> [] \<and>
   proxies dead_pool = [''http://p1:8080''] \<and> healthy_proxies dead_pool = [] \<and>
   (\<forall>w p. \<not> fst (probe_proxy_health dead_env w p)) \<and>
   (case get_request_metadata dead_env dead_pool 5 of
      Inl e \<Rightarrow> False
    | Inr (st', w', outs) \<Rightarrow>
        healthy_proxies st' = [] \<and> unhealthy_proxies st' = [''http://p1:8080''] \<and>
        outs = map (\<lambda>ua. \<lparr>meta_headers = request_headers ua,
                           meta_proxies = Some [(''http'', ''http://p1:8080''),
                                                (''https'', ''http://p1:8080'')]\<rparr>)
                   fallback_user_agents) \<and>
   proxies empty_pool = [] \<and>
   (case get_request_metadata dead_env empty_pool 5 of
      Inl e \<Rightarrow> False
    | Inr (st', w', outs) \<Rightarrow>
        st' = empty_pool \<and>
        outs = map (\<lambda>ua. \<lparr>meta_headers = request_headers ua, meta_proxies = None\<rparr>)
                   fallback_user_agents)"
  using get_request_metadata_never_fails [of dead_pool dead_env 5]
    get_request_metadata_never_fails [of empty_pool dead_env 5]
  by (simp add: dead_pool_state empty_pool_state get_request_metadata_def get_random_user_agent_def
      random_choice_def get_random_proxy_def recheck_due_def probe_proxy_health_def dead_env_def
      proxy_dict_def fallback_user_agents_def)

subsection \<open>The two health sets\<close>

lemma check_all_loop_inv:
  assumes "distinct ps" "set ps \<inter> (set (healthy_proxies st) \<union> set (unhealthy_proxies st)) = {}"
    "set (healthy_proxies st) \<inter> set (unhealthy_proxies st) = {}"
  shows "proxies (fst (check_all_loop E ps st w)) = proxies st \<and>
     set (healthy_proxies (fst (check_all_loop E ps st w))) \<union>
       set (unhealthy_proxies (fst (check_all_loop E ps st w))) =
       set (healthy_proxies st) \<union> set (unhealthy_proxies st) \<union> set ps \<and>
     set (healthy_proxies (fst (check_all_loop E ps st w))) \<inter>
       set (unhealthy_proxies (fst (check_all_loop E ps st w))) = {}"
  using assms
proof (induction ps arbitrary: st w)
  case Nil
  then show ?case by simp
next
  case (Cons p ps)
  obtain ok w1 where probe: "probe_proxy_health E w p = (ok, w1)" by (cases "probe_proxy_health E w p")
  show ?case
  proof (cases ok)
    case True
    let ?st1 = "st\<lparr>healthy_proxies := List.insert p (healthy_proxies st),
                     proxy_health_checks := (proxy_health_checks st)(p \<mapsto> clock E w1)\<rparr>"
    have "distinct ps" using Cons.prems(1) by simp
    moreover have "set ps \<inter> (set (healthy_proxies ?st1) \<union> set (unhealthy_proxies ?st1)) = {}"
      using Cons.prems(1,2) by auto
    moreover have "set (healthy_proxies ?st1) \<inter> set (unhealthy_proxies ?st1) = {}"
      using Cons.prems(2,3) by auto
    ultimately show ?thesis
      using Cons.IH [of ?st1 w1] probe True by auto
  next
    case False
    let ?st1 = "st\<lparr>unhealthy_proxies := List.insert p (unhealthy_proxies st)\<rparr>"
    have "distinct ps" using Cons.prems(1) by simp
    moreover have "set ps \<inter> (set (healthy_proxies ?st1) \<union> set (unhealthy_proxies ?st1)) = {}"
      using Cons.prems(1,2) by auto
    moreover have "set (healthy_proxies ?st1) \<inter> set (unhealthy_proxies ?st1) = {}"
      using Cons.prems(2,3) by auto
    ultimately show ?thesis
      using Cons.IH [of ?st1 w1] probe False by auto
  qed
qed

lemma init_checked_partitioned:
  assumes "distinct ps"
  shows "partitioned (fst (ProxyManager_init E (Some ps) uas True fake w)) \<and>
         proxies (fst (ProxyManager_init E (Some ps) uas True fake w)) = ps"
proof (cases "ps = []")
  case True
  then show ?thesis by (simp add: ProxyManager_init_def partitioned_def Let_def)
next
  case False
  let ?st = "\<lparr>proxies = ps, healthy_proxies = [], unhealthy_proxies = [],
      proxy_health_checks = Map.empty, check_proxy_health = True, use_fake_ua = fake,
      user_agents = (case uas of None \<Rightarrow> fallback_user_agents | Some [] \<Rightarrow> fallback_user_agents
                     | Some uas \<Rightarrow> uas)\<rparr>"
  from check_all_loop_inv [of ps ?st E w] assms
  have "proxies (fst (check_all_loop E ps ?st w)) = ps \<and>
     set (healthy_proxies (fst (check_all_loop E ps ?st w))) \<union>
       set (unhealthy_proxies (fst (check_all_loop E ps ?st w))) = set ps \<and>
     set (healthy_proxies (fst (check_all_loop E ps ?st w))) \<inter>
       set (unhealthy_proxies (fst (check_all_loop E ps ?st w))) = {}"
    by simp
  with False show ?thesis
    by (simp add: ProxyManager_init_def check_all_proxies_def partitioned_def Let_def)
qed

lemma get_random_proxy_partitioned:
  assumes "partitioned st"
  shows "\<exists>st' w' outs. get_random_proxy E st w = Inr (st', w', outs) \<and> partitioned st' \<and>
           proxies st' = proxies st"
proof -
  from get_random_proxy_result [of E st w] obtain st' w' outs where
    "get_random_proxy E st w = Inr (st', w', outs)" "proxies st' = proxies st"
    "set (healthy_proxies st') \<union> set (unhealthy_proxies st') =
       set (healthy_proxies st) \<union> set (unhealthy_proxies st)"
    "set (healthy_proxies st') \<inter> set (unhealthy_proxies st') \<subseteq>
       set (healthy_proxies st) \<inter> set (unhealthy_proxies st)"
    by blast
  with assms show ?thesis by (auto simp: partitioned_def)
qed

lemma proxy_calls_partitioned:
  "partitioned st \<Longrightarrow>
   \<exists>st' outs. proxy_calls E st ws = Inr (st', outs) \<and> partitioned st' \<and> proxies st' = proxies st"
proof (induction ws arbitrary: st)
  case Nil
  then show ?case by simp
next
  case (Cons w ws)
  from get_random_proxy_partitioned [OF Cons.prems, of E w] obtain st1 w1 outs where
    step: "get_random_proxy E st w = Inr (st1, w1, outs)" and p1: "partitioned st1"
    and pool: "proxies st1 = proxies st" by blast
  from Cons.IH [OF p1] obtain st' rest where
    "proxy_calls E st1 ws = Inr (st', rest)" "partitioned st'" "proxies st' = proxies st1" by blast
  with step pool show ?case by simp
qed

lemma get_random_proxy_no_sets:
  assumes "healthy_proxies st = []" "unhealthy_proxies st = []"
  shows "get_random_proxy E st w =
     Inr (st, w, if proxies st = [] then [None]
                 else map (\<lambda>proxy. Some (proxy_dict proxy)) (proxies st))"
  using assms by (simp add: get_random_proxy_def random_choice_def)

lemma proxy_calls_no_sets:
  assumes "healthy_proxies st = []" "unhealthy_proxies st = []"
  shows "proxy_calls E st ws =
     Inr (st, replicate (length ws)
                (if proxies st = [] then [None]
                 else map (\<lambda>proxy. Some (proxy_dict proxy)) (proxies st)))"
  by (induction ws) (simp_all add: get_random_proxy_no_sets [OF assms])

lemma init_unchecked:
  "ProxyManager_init E (Some ps) uas False fake w =
     (\<lparr>proxies = ps, healthy_proxies = [], unhealthy_proxies = [],
       proxy_health_checks = Map.empty, check_proxy_health = False, use_fake_ua = fake,
       user_agents = (case uas of None \<Rightarrow> fallback_user_agents | Some [] \<Rightarrow> fallback_user_agents
                      | Some uas \<Rightarrow> uas)\<rparr>, w)"
  by (simp add: ProxyManager_init_def Let_def)

text \<open>
  Claim C8, as the code has it. With health checking enabled at construction and a pool
  of distinct addresses, every address of the pool is in exactly one of the two sets after
  \<open>__init__\<close> and after any number of calls of \<open>get_random_proxy\<close>. With health
  checking disabled at construction the two sets are empty and stay empty, no probe is
  sent, and every call draws from the whole pool.
\<close>

theorem partition_after_checked_construction:
  "(distinct ps \<longrightarrow>
      partitioned (fst (ProxyManager_init E (Some ps) uas True fake w)) \<and>
      (\<exists>st' outs. proxy_calls E (fst (ProxyManager_init E (Some ps) uas True fake w)) ws
                     = Inr (st', outs) \<and>
                   partitioned st' \<and> proxies st' = ps)) \<and>
   snd (ProxyManager_init E (Some ps) uas False fake w) = w \<and>
   proxies (fst (ProxyManager_init E (Some ps) uas False fake w)) = ps \<and>
   healthy_proxies (fst (ProxyManager_init E (Some ps) uas False fake w)) = [] \<and>
   unhealthy_proxies (fst (ProxyManager_init E (Some ps) uas False fake w)) = [] \<and>
   proxy_calls E (fst (ProxyManager_init E (Some ps) uas False fake w)) ws =
     Inr (fst (ProxyManager_init E (Some ps) uas False fake w),
          replicate (length ws)
            (if ps = [] then [None] else map (\<lambda>proxy. Some (proxy_dict proxy)) ps))"
proof -
  have checked: "partitioned (fst (ProxyManager_init E (Some ps) uas True fake w)) \<and>
      (\<exists>st' outs. proxy_calls E (fst (ProxyManager_init E (Some ps) uas True fake w)) ws
                     = Inr (st', outs) \<and>
                   partitioned st' \<and> proxies st' = ps)" if "distinct ps"
  proof -
    from init_checked_partitioned [OF that, of E uas fake w]
    have p: "partitioned (fst (ProxyManager_init E (Some ps) uas True fake w))"
      and pool: "proxies (fst (ProxyManager_init E (Some ps) uas True fake w)) = ps" by simp_all
    from proxy_calls_partitioned [OF p, of E ws] pool p show ?thesis by auto
  qed
  have plain: "proxy_calls E (fst (ProxyManager_init E (Some ps) uas False fake w)) ws =
     Inr (fst (ProxyManager_init E (Some ps) uas False fake w),
          replicate (length ws)
            (if ps = [] then [None] else map (\<lambda>proxy. Some (proxy_dict proxy)) ps))"
    by (simp add: init_unchecked proxy_calls_no_sets)
  from checked plain show ?thesis by (simp add: init_unchecked)
qed

lemma lab_pool_state:
  "lab_pool = \<lparr>proxies = [''http://p1:8080'', ''http://p2:8080''],
      healthy_proxies = [''http://p1:8080''], unhealthy_proxies = [''http://p2:8080''],
      proxy_health_checks = [''http://p1:8080'' \<mapsto> 1],
      check_proxy_health = True, use_fake_ua = False, user_agents = fallback_user_agents\<rparr>"
  by (simp add: lab_pool_def ProxyManager_init_def check_all_proxies_def probe_proxy_health_def
      lab_env_def Let_def)

theorem partition_after_checked_construction_witness:
  "distinct [''http://p1:8080'', ''http://p2:8080''] \<and>
   partitioned lab_pool \<and>
   healthy_proxies lab_pool = [''http://p1:8080''] \<and>
   unhealthy_proxies lab_pool = [''http://p2:8080''] \<and>
   (case proxy_calls lab_env lab_pool [100, 1800000200] of
      Inl e \<Rightarrow> False
    | Inr (st', outs) \<Rightarrow>
        partitioned st' \<and> proxies st' = [''http://p1:8080'', ''http://p2:8080''] \<and>
        outs = [[Some (proxy_dict ''http://p1:8080'')], [Some (proxy_dict ''http://p1:8080'')]]) \<and>
   healthy_proxies (fst (ProxyManager_init lab_env (Some [''http://p1:8080'', ''http://p2:8080''])
                           None False False 0)) = [] \<and>
   unhealthy_proxies (fst (ProxyManager_init lab_env (Some [''http://p1:8080'', ''http://p2:8080''])
                             None False False 0)) = []"
  using partition_after_checked_construction [of "[''http://p1:8080'', ''http://p2:8080'']"
      lab_env None False 0 "[100, 1800000200]", folded lab_pool_def]
  by (simp add: lab_pool_state partitioned_def
      get_random_proxy_def recheck_due_def recheck_interval_def random_choice_def
      probe_proxy_health_def lab_env_def set_remove_def init_unchecked)

text \<open>
  Claim C8 as stated fails when health checking is disabled at construction (the manager
  of the repository's test): the address is in the pool and in neither set, and
  \<open>get_random_proxy\<close> hands it out without a probe.
\<close>

theorem unchecked_pool_not_partitioned:
  "\<not> partitioned unchecked_pool \<and>
   ''http://test-proxy:8080'' \<in> set (proxies unchecked_pool) \<and>
   ''http://test-proxy:8080'' \<notin> set (healthy_proxies unchecked_pool) \<and>
   ''http://test-proxy:8080'' \<notin> set (unhealthy_proxies unchecked_pool) \<and>
   get_random_proxy dead_env unchecked_pool 5 =
     Inr (unchecked_pool, 5, [Some (proxy_dict ''http://test-proxy:8080'')])"
  by (simp add: unchecked_pool_def init_unchecked partitioned_def get_random_proxy_no_sets)

end
